theory Spec2Isabelle
  imports Complex_Main "HOL-Library.Char_ord" "HOL-Library.List_Lexorder"
begin

section \<open>Values exchanged with the two services\<close>

text \<open>
  JSON values as the scripts handle them after \<^verbatim>\<open>response.json()\<close>: Python's
  \<^verbatim>\<open>None\<close>, booleans, integers, strings, lists and dictionaries. A dictionary is an
  association list in insertion order; a lookup reads the first entry of a key.
  Floating-point numbers are not modelled.
\<close>

datatype json =
    JNull
  | JBool bool
  | JInt int
  | JStr string
  | JList "json list"
  | JDict "(string \<times> json) list"

type_synonym dict = "(string \<times> json) list"

text \<open>Python truthiness (\<^verbatim>\<open>if x:\<close>) of a JSON value.\<close>

fun truthy :: "json \<Rightarrow> bool" where
  "truthy JNull = False"
| "truthy (JBool b) = b"
| "truthy (JInt i) = (i \<noteq> 0)"
| "truthy (JStr s) = (s \<noteq> [])"
| "truthy (JList xs) = (xs \<noteq> [])"
| "truthy (JDict kvs) = (kvs \<noteq> [])"

text \<open>\<^verbatim>\<open>d.get(k)\<close> and \<^verbatim>\<open>d.get(k, default)\<close>.\<close>

definition dict_get :: "dict \<Rightarrow> string \<Rightarrow> json" where
  "dict_get d k = (case map_of d k of None \<Rightarrow> JNull | Some v \<Rightarrow> v)"

definition dict_get_default :: "dict \<Rightarrow> string \<Rightarrow> json \<Rightarrow> json" where
  "dict_get_default d k dflt = (case map_of d k of None \<Rightarrow> dflt | Some v \<Rightarrow> v)"

text \<open>\<^verbatim>\<open>d[k] = v\<close>: an existing key keeps its position, a new key goes last.\<close>

fun dict_set :: "dict \<Rightarrow> string \<Rightarrow> json \<Rightarrow> dict" where
  "dict_set [] k v = [(k, v)]"
| "dict_set ((k', v') # d) k v = (if k' = k then (k, v) # d else (k', v') # dict_set d k v)"

section \<open>APIClient (crm\_migration/migrate.py)\<close>

text \<open>
  A \<^verbatim>\<open>requests.Response\<close>: its status code, its body text, and the value
  \<^verbatim>\<open>.json()\<close> parses from the body (\<open>None\<close> when the body is not JSON, where
  \<^verbatim>\<open>.json()\<close> raises).
\<close>

record response =
  status_code :: nat
  resp_text :: string
  json_body :: "json option"

text \<open>
  The exceptions the scripts meet. \<open>HTTPError\<close> is what \<^verbatim>\<open>raise_for_status\<close>
  raises; it carries the response. \<open>RequestException\<close> stands for the other members of
  that class (connection errors, timeouts), with the text \<^verbatim>\<open>str(e)\<close> gives and the
  response it may carry. \<open>JSONDecodeError\<close> is raised by \<^verbatim>\<open>.json()\<close> on a body
  that is not JSON. \<open>OtherException\<close> is any exception outside the
  \<^verbatim>\<open>RequestException\<close> hierarchy, with its text.
\<close>

datatype py_exc =
    HTTPError response
  | RequestException string "response option"
  | JSONDecodeError
  | OtherException string

record request =
  http_method :: string
  url :: string
  json_data :: "json option"
  params :: "dict option"
  timeout :: int

text \<open>
  What the program does to the outside world, in order: an HTTP call handed to the session,
  or a \<^verbatim>\<open>time.sleep\<close> of so many seconds. Console output is not modelled.
\<close>

datatype effect = Sent request | Slept rat

text \<open>
  The remote service is not part of the repository. A session answers a call either with a
  response or by raising; the answer may depend on everything done so far and on the call.
\<close>

datatype outcome = Responds response | Raises py_exc

type_synonym session = "effect list \<Rightarrow> request \<Rightarrow> outcome"

record config =
  MAX_RETRIES :: int
  REQUEST_TIMEOUT :: int
  BATCH_SIZE :: int

record apiclient =
  base_url :: string
  client_name :: string

text \<open>\<^verbatim>\<open>s.rstrip('/')\<close> and \<^verbatim>\<open>s.lstrip('/')\<close>.\<close>

definition lstrip_slash :: "string \<Rightarrow> string" where
  "lstrip_slash s = dropWhile (\<lambda>c. c = CHR ''/'') s"

definition rstrip_slash :: "string \<Rightarrow> string" where
  "rstrip_slash s = rev (dropWhile (\<lambda>c. c = CHR ''/'') (rev s))"

text \<open>\<^verbatim>\<open>APIClient.__init__\<close>.\<close>

definition new_client :: "string \<Rightarrow> string \<Rightarrow> apiclient" where
  "new_client base nm = \<lparr>base_url = rstrip_slash base, client_name = nm\<rparr>"

text \<open>
  \<^verbatim>\<open>response.raise_for_status()\<close>: a status from 400 to 599 raises \<open>HTTPError\<close>.
\<close>

definition raise_for_status :: "response \<Rightarrow> py_exc + response" where
  "raise_for_status r =
     (if 400 \<le> status_code r \<and> status_code r < 600
      then Inl (HTTPError r) else Inr r)"

text \<open>One pass through the \<^verbatim>\<open>try\<close> body of the retry loop.\<close>

definition attempt_once :: "session \<Rightarrow> effect list \<Rightarrow> request \<Rightarrow> py_exc + response" where
  "attempt_once sess tr rq =
     (case sess tr rq of Raises e \<Rightarrow> Inl e | Responds r \<Rightarrow> raise_for_status r)"

text \<open>The two \<^verbatim>\<open>except\<close> clauses catch \<open>HTTPError\<close> and \<open>RequestException\<close> (and its
  subclasses, which \<open>JSONDecodeError\<close> is not at this point: the loop never parses JSON).\<close>

fun caught_by_retry :: "py_exc \<Rightarrow> bool" where
  "caught_by_retry (HTTPError r) = True"
| "caught_by_retry (RequestException m r) = True"
| "caught_by_retry JSONDecodeError = False"
| "caught_by_retry (OtherException m) = False"

text \<open>
  The loop \<^verbatim>\<open>for attempt in range(MAX_RETRIES)\<close> of \<^verbatim>\<open>APIClient.request\<close>, over the
  attempts still to make, and the \<^verbatim>\<open>return None\<close> after it. The result is the exception
  raised (\<open>Inl\<close>), or the value returned; the second component is the trace so far.
\<close>

fun request_attempts ::
  "session \<Rightarrow> int \<Rightarrow> request \<Rightarrow> nat list \<Rightarrow> effect list
     \<Rightarrow> (py_exc + response option) \<times> effect list" where
  "request_attempts sess mr rq [] tr = (Inr None, tr)"
| "request_attempts sess mr rq (attempt # rest) tr =
     (case attempt_once sess tr rq of
        Inr resp \<Rightarrow> (Inr (Some resp), tr @ [Sent rq])
      | Inl e \<Rightarrow>
          if caught_by_retry e then
            (if int attempt = mr - 1 then (Inl e, tr @ [Sent rq])
             else request_attempts sess mr rq rest (tr @ [Sent rq, Slept (2 ^ attempt)]))
          else (Inl e, tr @ [Sent rq]))"

record kwargs =
  kw_json :: "json option"
  kw_params :: "dict option"
  kw_timeout :: "int option"

definition no_kwargs :: kwargs where
  "no_kwargs = \<lparr>kw_json = None, kw_params = None, kw_timeout = None\<rparr>"

text \<open>The call \<^verbatim>\<open>APIClient.request\<close> hands to the session on every attempt.\<close>

definition build_request :: "config \<Rightarrow> apiclient \<Rightarrow> string \<Rightarrow> string \<Rightarrow> kwargs \<Rightarrow> request" where
  "build_request cfg c m endpoint kw =
     \<lparr>http_method = m,
      url = base_url c @ ''/'' @ lstrip_slash endpoint,
      json_data = kw_json kw,
      params = kw_params kw,
      timeout = (case kw_timeout kw of None \<Rightarrow> REQUEST_TIMEOUT cfg | Some t \<Rightarrow> t)\<rparr>"

definition request ::
  "config \<Rightarrow> session \<Rightarrow> apiclient \<Rightarrow> string \<Rightarrow> string \<Rightarrow> kwargs \<Rightarrow> effect list
     \<Rightarrow> (py_exc + response option) \<times> effect list" where
  "request cfg sess c m endpoint kw tr =
     request_attempts sess (MAX_RETRIES cfg) (build_request cfg c m endpoint kw)
       [0..<nat (MAX_RETRIES cfg)] tr"

text \<open>
  The trace of a call whose attempts all fail: the same call \<open>n\<close> times, with a sleep of
  \<open>2 ^ attempt\<close> seconds after every attempt but the last.
\<close>

definition backoff_trace :: "request \<Rightarrow> nat \<Rightarrow> effect list" where
  "backoff_trace rq n =
     concat (map (\<lambda>a. if Suc a = n then [Sent rq] else [Sent rq, Slept (2 ^ a)]) [0..<n])"

definition sleeps_of :: "effect list \<Rightarrow> rat list" where
  "sleeps_of tr = concat (map (\<lambda>e. case e of Slept d \<Rightarrow> [d] | Sent r \<Rightarrow> []) tr)"

definition sent_of :: "effect list \<Rightarrow> request list" where
  "sent_of tr = concat (map (\<lambda>e. case e of Sent r \<Rightarrow> [r] | Slept d \<Rightarrow> []) tr)"

text \<open>An attempt fails transiently when the retry loop catches what it raises.\<close>

definition transient_failure :: "session \<Rightarrow> effect list \<Rightarrow> request \<Rightarrow> bool" where
  "transient_failure sess tr rq =
     (case attempt_once sess tr rq of Inl e \<Rightarrow> caught_by_retry e | Inr r \<Rightarrow> False)"

text \<open>
  \<^verbatim>\<open>Response.__bool__\<close> is \<^verbatim>\<open>Response.ok\<close>: true unless \<^verbatim>\<open>raise_for_status\<close> would
  raise.
\<close>

definition response_ok :: "response \<Rightarrow> bool" where
  "response_ok r = (case raise_for_status r of Inl e \<Rightarrow> False | Inr r' \<Rightarrow> True)"

text \<open>
  \<^verbatim>\<open>return response.json() if response else None\<close>, the last line of
  \<^verbatim>\<open>APIClient.get\<close> and \<^verbatim>\<open>APIClient.post\<close>.
\<close>

definition json_or_none :: "response option \<Rightarrow> py_exc + json option" where
  "json_or_none ro =
     (case ro of
        None \<Rightarrow> Inr None
      | Some r \<Rightarrow>
          if response_ok r
          then (case json_body r of None \<Rightarrow> Inl JSONDecodeError | Some j \<Rightarrow> Inr (Some j))
          else Inr None)"

definition client_get ::
  "config \<Rightarrow> session \<Rightarrow> apiclient \<Rightarrow> string \<Rightarrow> kwargs \<Rightarrow> effect list
     \<Rightarrow> (py_exc + json option) \<times> effect list" where
  "client_get cfg sess c endpoint kw tr =
     (case request cfg sess c ''GET'' endpoint kw tr of
        (Inl e, tr') \<Rightarrow> (Inl e, tr')
      | (Inr ro, tr') \<Rightarrow> (json_or_none ro, tr'))"

definition client_post ::
  "config \<Rightarrow> session \<Rightarrow> apiclient \<Rightarrow> string \<Rightarrow> json \<Rightarrow> effect list
     \<Rightarrow> (py_exc + json option) \<times> effect list" where
  "client_post cfg sess c endpoint data tr =
     (case request cfg sess c ''POST'' endpoint (no_kwargs\<lparr>kw_json := Some data\<rparr>) tr of
        (Inl e, tr') \<Rightarrow> (Inl e, tr')
      | (Inr ro, tr') \<Rightarrow> (json_or_none ro, tr'))"

section \<open>MigrationLogger (crm\_migration/migrate.py)\<close>

text \<open>
  The text of an error entry. \<open>Literal\<close> is a fixed string of the script; \<open>ExcStr e\<close>
  stands for \<^verbatim>\<open>str(e)\<close>; \<open>ExcStrWithResponse e t\<close> stands for
  \<^verbatim>\<open>str(e) + " | Response: " + t\<close>, where \<open>t\<close> is the body text of the response the
  exception carries.
\<close>

datatype error_message =
    Literal string
  | ExcStr py_exc
  | ExcStrWithResponse py_exc string

text \<open>
  The entries \<^verbatim>\<open>log_success\<close> and \<^verbatim>\<open>log_error\<close> append. The wall-clock
  \<^verbatim>\<open>timestamp\<close> of an entry is left out; \<open>record_data\<close> is the payload whose keys the
  entry takes over.
\<close>

record success_entry =
  s_twenty_id :: json
  s_attio_id :: json
  s_record_data :: dict

record error_entry =
  e_twenty_id :: json
  e_error :: error_message
  e_record_data :: dict

record migration_logger =
  success_count :: int
  error_count :: int
  skipped_count :: int
  successful_records :: "success_entry list"
  failed_records :: "error_entry list"

definition new_logger :: migration_logger where
  "new_logger = \<lparr>success_count = 0, error_count = 0, skipped_count = 0,
                  successful_records = [], failed_records = []\<rparr>"

definition log_success :: "migration_logger \<Rightarrow> json \<Rightarrow> json \<Rightarrow> dict \<Rightarrow> migration_logger" where
  "log_success lg twenty attio record_data =
     lg\<lparr>success_count := success_count lg + 1,
        successful_records := successful_records lg @
          [\<lparr>s_twenty_id = twenty, s_attio_id = attio, s_record_data = record_data\<rparr>]\<rparr>"

definition log_error :: "migration_logger \<Rightarrow> json \<Rightarrow> error_message \<Rightarrow> dict \<Rightarrow> migration_logger" where
  "log_error lg twenty msg record_data =
     lg\<lparr>error_count := error_count lg + 1,
        failed_records := failed_records lg @
          [\<lparr>e_twenty_id = twenty, e_error = msg, e_record_data = record_data\<rparr>]\<rparr>"

section \<open>execute\_migration (crm\_migration/migrate.py)\<close>

text \<open>
  \<^verbatim>\<open>str(value)\<close>: a string is itself. What Python prints for any other value is a
  parameter \<open>repr\<close> of the functions that need it.
\<close>

definition py_str :: "(json \<Rightarrow> string) \<Rightarrow> json \<Rightarrow> string" where
  "py_str repr v = (case v of JStr s \<Rightarrow> s | _ \<Rightarrow> repr v)"

text \<open>\<^verbatim>\<open>s.split(' ', 1)\<close>: cut at the first space, if there is one.\<close>

definition split_first_space :: "string \<Rightarrow> string list" where
  "split_first_space s =
     (if CHR '' '' \<in> set s
      then [takeWhile (\<lambda>c. c \<noteq> CHR '' '') s, tl (dropWhile (\<lambda>c. c \<noteq> CHR '' '') s)]
      else [s])"

definition name_value :: "(json \<Rightarrow> string) \<Rightarrow> json \<Rightarrow> json" where
  "name_value repr v =
     (let parts = split_first_space (py_str repr v);
          first_name = hd parts;
          last_name = (if length parts > 1 then parts ! 1 else [])
      in JList [JDict [(''full_name'', v),
                       (''first_name'', JStr first_name),
                       (''last_name'', JStr last_name)]])"

definition location_value :: "json \<Rightarrow> json" where
  "location_value v =
     JList [JDict [(''line_1'', JStr []),
                   (''line_2'', JStr []),
                   (''line_3'', JStr []),
                   (''line_4'', JStr []),
                   (''locality'', v),
                   (''region'', JStr []),
                   (''postcode'', JStr []),
                   (''country_code'', JNull),
                   (''latitude'', JNull),
                   (''longitude'', JNull)]]"

definition is_str :: "json \<Rightarrow> bool" where
  "is_str v = (case v of JStr s \<Rightarrow> True | _ \<Rightarrow> False)"

text \<open>The \<^verbatim>\<open>if\<close>/\<^verbatim>\<open>elif\<close> chain on \<^verbatim>\<open>target_field\<close>, in the source's order.\<close>

definition encode_field :: "(json \<Rightarrow> string) \<Rightarrow> string \<Rightarrow> json \<Rightarrow> json" where
  "encode_field repr target_field v =
     (if target_field = ''name'' then name_value repr v
      else if target_field = ''email_addresses'' then JList [JDict [(''email_address'', v)]]
      else if target_field = ''primary_location'' then location_value v
      else if target_field \<in> set [''linkedin'', ''twitter'', ''facebook'', ''instagram'', ''angellist'']
        then JList [JDict [(''value'', v)]]
      else if is_str v then JList [JDict [(''value'', v)]] else v)"

text \<open>
  The loop \<^verbatim>\<open>for source_field, target_field in mapping.items()\<close>; \<open>vals\<close> is
  \<^verbatim>\<open>payload["values"]\<close> so far.
\<close>

fun build_values :: "(json \<Rightarrow> string) \<Rightarrow> (string \<times> string) list \<Rightarrow> dict \<Rightarrow> dict \<Rightarrow> dict" where
  "build_values repr [] record vals = vals"
| "build_values repr ((source_field, target_field) # rest) record vals =
     (let v = dict_get record source_field in
      if v \<noteq> JNull \<and> v \<noteq> JStr []
      then build_values repr rest record (dict_set vals target_field (encode_field repr target_field v))
      else build_values repr rest record vals)"

definition build_payload :: "(json \<Rightarrow> string) \<Rightarrow> (string \<times> string) list \<Rightarrow> dict \<Rightarrow> dict" where
  "build_payload repr mapping record = [(''values'', JDict (build_values repr mapping record []))]"

text \<open>
  \<^verbatim>\<open>"email_addresses" in payload["values"] and payload["values"]["email_addresses"]\<close>.
\<close>

definition has_email :: "dict \<Rightarrow> bool" where
  "has_email payload =
     (case dict_get payload ''values'' of
        JDict vals \<Rightarrow>
          (case map_of vals ''email_addresses'' of None \<Rightarrow> False | Some v \<Rightarrow> truthy v)
      | _ \<Rightarrow> False)"

text \<open>\<^verbatim>\<open>sub in s\<close> for two strings.\<close>

fun starts_with :: "string \<Rightarrow> string \<Rightarrow> bool" where
  "starts_with s [] = True"
| "starts_with [] (p # ps) = False"
| "starts_with (c # cs) (p # ps) = (c = p \<and> starts_with cs ps)"

fun str_contains :: "string \<Rightarrow> string \<Rightarrow> bool" where
  "str_contains [] sub = (sub = [])"
| "str_contains (c # cs) sub = (starts_with (c # cs) sub \<or> str_contains cs sub)"

text \<open>
  What the executor holds in \<^verbatim>\<open>response\<close> after the write: the
  \<^verbatim>\<open>requests.Response\<close> that \<^verbatim>\<open>attio_client.request\<close> returns, or the parsed JSON
  that \<^verbatim>\<open>attio_client.post\<close> returns, or \<^verbatim>\<open>None\<close>.
\<close>

datatype write_result = ResponseObject response | ParsedJson json | NoneResult

text \<open>
  The body of the inner \<^verbatim>\<open>try\<close> on a parsed \<^verbatim>\<open>resp_data\<close>. Every exception in it
  (\<^verbatim>\<open>'data' in resp_data\<close> on a value that is no container, indexing a list or a string
  with \<^verbatim>\<open>'data'\<close>, \<^verbatim>\<open>.get\<close> on a value that is no dictionary) is caught by the bare
  \<^verbatim>\<open>except\<close>, which logs a success with \<^verbatim>\<open>"upserted-no-content"\<close>.
\<close>

definition log_parsed :: "migration_logger \<Rightarrow> json \<Rightarrow> dict \<Rightarrow> json \<Rightarrow> migration_logger" where
  "log_parsed lg twenty payload resp_data =
     (case resp_data of
        JDict d \<Rightarrow>
          (case map_of d ''data'' of
             None \<Rightarrow> log_success lg twenty (JStr ''upserted'') payload
           | Some (JDict dd) \<Rightarrow>
               (case dict_get_default dd ''id'' (JDict []) of
                  JDict idd \<Rightarrow> log_success lg twenty (dict_get idd ''record_id'') payload
                | _ \<Rightarrow> log_success lg twenty (JStr ''upserted-no-content'') payload)
           | Some _ \<Rightarrow> log_success lg twenty (JStr ''upserted-no-content'') payload)
      | JList xs \<Rightarrow>
          if JStr ''data'' \<in> set xs
          then log_success lg twenty (JStr ''upserted-no-content'') payload
          else log_success lg twenty (JStr ''upserted'') payload
      | JStr s \<Rightarrow>
          if str_contains s ''data''
          then log_success lg twenty (JStr ''upserted-no-content'') payload
          else log_success lg twenty (JStr ''upserted'') payload
      | _ \<Rightarrow> log_success lg twenty (JStr ''upserted-no-content'') payload)"

text \<open>
  \<^verbatim>\<open>if response: ... else: logger.log_error(...)\<close>. A \<^verbatim>\<open>Response\<close> is parsed with
  \<^verbatim>\<open>.json()\<close>, and a body that is not JSON raises into the bare \<^verbatim>\<open>except\<close>. The value
  \<^verbatim>\<open>post\<close> returned is already parsed JSON and has no \<^verbatim>\<open>.json\<close> attribute: the call
  raises \<^verbatim>\<open>AttributeError\<close> into the same bare \<^verbatim>\<open>except\<close>.
\<close>

definition log_response :: "migration_logger \<Rightarrow> json \<Rightarrow> dict \<Rightarrow> write_result \<Rightarrow> migration_logger" where
  "log_response lg twenty payload res =
     (case res of
        NoneResult \<Rightarrow> log_error lg twenty (Literal ''No response or empty response'') payload
      | ResponseObject r \<Rightarrow>
          if response_ok r
          then (case json_body r of
                  None \<Rightarrow> log_success lg twenty (JStr ''upserted-no-content'') payload
                | Some resp_data \<Rightarrow> log_parsed lg twenty payload resp_data)
          else log_error lg twenty (Literal ''No response or empty response'') payload
      | ParsedJson j \<Rightarrow>
          if truthy j
          then log_success lg twenty (JStr ''upserted-no-content'') payload
          else log_error lg twenty (Literal ''No response or empty response'') payload)"

text \<open>
  The handler \<^verbatim>\<open>except Exception as e\<close>: the response text is appended when the
  exception has a \<^verbatim>\<open>response\<close> attribute that is not \<^verbatim>\<open>None\<close>.
\<close>

fun error_msg :: "py_exc \<Rightarrow> error_message" where
  "error_msg (HTTPError r) = ExcStrWithResponse (HTTPError r) (resp_text r)"
| "error_msg (RequestException m (Some r)) = ExcStrWithResponse (RequestException m (Some r)) (resp_text r)"
| "error_msg (RequestException m None) = ExcStr (RequestException m None)"
| "error_msg JSONDecodeError = ExcStr JSONDecodeError"
| "error_msg (OtherException m) = ExcStr (OtherException m)"

text \<open>The write: \<^verbatim>\<open>PUT\<close> through \<^verbatim>\<open>request\<close>, or \<^verbatim>\<open>post\<close>.\<close>

definition records_endpoint :: "string \<Rightarrow> string" where
  "records_endpoint target_object = ''/objects/'' @ target_object @ ''/records''"

definition write_record ::
  "config \<Rightarrow> session \<Rightarrow> apiclient \<Rightarrow> string \<Rightarrow> dict \<Rightarrow> effect list
     \<Rightarrow> (py_exc + write_result) \<times> effect list" where
  "write_record cfg sess c target_object payload tr =
     (if target_object = ''people'' \<and> has_email payload
      then (case request cfg sess c ''PUT'' (records_endpoint target_object)
                   \<lparr>kw_json = Some (JDict [(''data'', JDict payload)]),
                    kw_params = Some [(''matching_attribute'', JStr ''email_addresses'')],
                    kw_timeout = None\<rparr> tr of
              (Inl e, tr') \<Rightarrow> (Inl e, tr')
            | (Inr None, tr') \<Rightarrow> (Inr NoneResult, tr')
            | (Inr (Some r), tr') \<Rightarrow> (Inr (ResponseObject r), tr'))
      else (case client_post cfg sess c (records_endpoint target_object)
                   (JDict [(''data'', JDict payload)]) tr of
              (Inl e, tr') \<Rightarrow> (Inl e, tr')
            | (Inr None, tr') \<Rightarrow> (Inr NoneResult, tr')
            | (Inr (Some j), tr') \<Rightarrow> (Inr (ParsedJson j), tr')))"

text \<open>
  One pass through the body of \<^verbatim>\<open>for record in records\<close>. The state is the logger and
  the trace; the progress bar is not modelled.
\<close>

definition migrate_one ::
  "config \<Rightarrow> session \<Rightarrow> (json \<Rightarrow> string) \<Rightarrow> apiclient \<Rightarrow> (string \<times> string) list \<Rightarrow> string
     \<Rightarrow> bool \<Rightarrow> dict \<Rightarrow> migration_logger \<times> effect list \<Rightarrow> migration_logger \<times> effect list" where
  "migrate_one cfg sess repr c mapping target_object dry_run record st =
     (let lg = fst st; tr = snd st;
          twenty = dict_get_default record ''id'' (JStr ''unknown'');
          payload = build_payload repr mapping record
      in if dry_run
         then (log_success lg twenty (JStr ''dry-run-id'') payload, tr @ [Slept (1 / 10)])
         else (case write_record cfg sess c target_object payload tr of
                 (Inl e, tr') \<Rightarrow> (log_error lg twenty (error_msg e) payload, tr')
               | (Inr res, tr') \<Rightarrow> (log_response lg twenty payload res, tr')))"

fun execute_migration ::
  "config \<Rightarrow> session \<Rightarrow> (json \<Rightarrow> string) \<Rightarrow> apiclient \<Rightarrow> dict list \<Rightarrow> (string \<times> string) list
     \<Rightarrow> string \<Rightarrow> bool \<Rightarrow> migration_logger \<times> effect list \<Rightarrow> migration_logger \<times> effect list" where
  "execute_migration cfg sess repr c [] mapping target_object dry_run st = st"
| "execute_migration cfg sess repr c (record # records) mapping target_object dry_run st =
     execute_migration cfg sess repr c records mapping target_object dry_run
       (migrate_one cfg sess repr c mapping target_object dry_run record st)"

subsection \<open>Sample configuration and sessions\<close>

text \<open>
  The defaults of the script (three retries, a timeout of 30 seconds, batches of 50), a
  service that refuses every connection, the Attio client of \<^verbatim>\<open>test_connections\<close>, and
  a service whose first answer times out.
\<close>

definition cfg3 :: config where
  "cfg3 = \<lparr>MAX_RETRIES = 3, REQUEST_TIMEOUT = 30, BATCH_SIZE = 50\<rparr>"

definition down_session :: session where
  "down_session t r = Raises (RequestException ''connection refused'' None)"

definition attio :: apiclient where
  "attio = new_client ''https://api.attio.com/v2'' ''Attio CRM''"

definition ok_response :: response where
  "ok_response = \<lparr>status_code = 200, resp_text = ''{}'', json_body = Some (JDict [])\<rparr>"

definition flaky_session :: session where
  "flaky_session t r =
     (if sent_of t = [] then Raises (RequestException ''timed out'' None) else Responds ok_response)"

text \<open>
  Reading the built payload: the value stored under a target field of
  \<^verbatim>\<open>payload["values"]\<close>.
\<close>

definition payload_field :: "dict \<Rightarrow> string \<Rightarrow> json option" where
  "payload_field payload target_field =
     (case dict_get payload ''values'' of JDict vals \<Rightarrow> map_of vals target_field | _ \<Rightarrow> None)"

text \<open>
  The source fields that the mapping sends to a target field and whose value in the
  record passes the test \<^verbatim>\<open>value is not None and value != ""\<close>, in mapping order.
\<close>

definition mapped_sources :: "(string \<times> string) list \<Rightarrow> dict \<Rightarrow> string \<Rightarrow> string list" where
  "mapped_sources mapping record target_field =
     map fst (filter (\<lambda>(s, t). t = target_field \<and> dict_get record s \<noteq> JNull
                                  \<and> dict_get record s \<noteq> JStr []) mapping)"

text \<open>A stand-in for Python's printing of non-string values, for the examples.\<close>

definition no_repr :: "json \<Rightarrow> string" where
  "no_repr v = []"

text \<open>
  A service that answers every call with status 200 and the JSON body
  \<^verbatim>\<open>{"data": {"id": {"record_id": "attio_1"}}}\<close>.
\<close>

definition created_response :: response where
  "created_response =
     \<lparr>status_code = 200,
      resp_text = ''<body>'',
      json_body = Some (JDict [(''data'', JDict [(''id'', JDict [(''record_id'', JStr ''attio_1'')])])])\<rparr>"

definition created_session :: session where
  "created_session t r = Responds created_response"

text \<open>The record and the mapping of \<^verbatim>\<open>test_execute_migration_live\<close>.\<close>

definition alice :: dict where
  "alice = [(''id'', JStr ''1''), (''name'', JStr ''Alice'')]"

definition alice_with_email :: dict where
  "alice_with_email = [(''id'', JStr ''1''), (''email_primary'', JStr ''alice@example.com'')]"

section \<open>Duplicate detection (find\_duplicates.py)\<close>

text \<open>
  The exceptions Python raises on data of the wrong shape: a missing key, a value that
  cannot be indexed, iterated or compared, a value without the method called on it, an
  index outside a list.
\<close>

datatype data_error = KeyError | TypeError | AttributeError | IndexError

text \<open>Sequencing: an exception in the first step ends the computation.\<close>

definition and_then :: "'e + 'a \<Rightarrow> ('a \<Rightarrow> 'e + 'b) \<Rightarrow> 'e + 'b" where
  "and_then x f = (case x of Inl err \<Rightarrow> Inl err | Inr v \<Rightarrow> f v)"

text \<open>\<^verbatim>\<open>x[k]\<close> with a string key \<open>k\<close>: only a dictionary that has the key answers.\<close>

definition subscript :: "json \<Rightarrow> string \<Rightarrow> data_error + json" where
  "subscript x k =
     (case x of
        JDict d \<Rightarrow> (case map_of d k of None \<Rightarrow> Inl KeyError | Some v \<Rightarrow> Inr v)
      | _ \<Rightarrow> Inl TypeError)"

text \<open>\<^verbatim>\<open>x.get(k, default)\<close>: only a dictionary has the method.\<close>

definition get_or :: "json \<Rightarrow> string \<Rightarrow> json \<Rightarrow> data_error + json" where
  "get_or x k dflt =
     (case x of JDict d \<Rightarrow> Inr (dict_get_default d k dflt) | _ \<Rightarrow> Inl AttributeError)"

text \<open>
  \<^verbatim>\<open>xs[0]\<close> on a truthy value: the first element of a list, the first character of a
  string; a dictionary has no key \<open>0\<close> here (its keys are strings), other values cannot be
  indexed.
\<close>

definition first_item :: "json \<Rightarrow> data_error + json" where
  "first_item x =
     (case x of
        JList (v # vs) \<Rightarrow> Inr v
      | JStr (ch # cs) \<Rightarrow> Inr (JStr [ch])
      | JDict d \<Rightarrow> Inl KeyError
      | _ \<Rightarrow> Inl TypeError)"

text \<open>
  \<^verbatim>\<open>for e in x\<close>: the elements of a list, the keys of a dictionary, the characters of a
  string; other values cannot be iterated.
\<close>

definition iterate :: "json \<Rightarrow> data_error + json list" where
  "iterate x =
     (case x of
        JList vs \<Rightarrow> Inr vs
      | JDict d \<Rightarrow> Inr (map (\<lambda>(k, v). JStr k) d)
      | JStr s \<Rightarrow> Inr (map (\<lambda>ch. JStr [ch]) s)
      | _ \<Rightarrow> Inl TypeError)"

text \<open>
  Python's \<^verbatim>\<open>str.lower\<close> lowers every cased letter of Unicode text. It is a builtin of
  the language, not code of the repository, and it is taken as the parameter \<open>lower\<close> of
  the functions that call it: what is proved of them holds for every such function, so
  for Python's.
\<close>

text \<open>
  The loop \<^verbatim>\<open>for e in email_vals\<close> of \<^verbatim>\<open>process_people\<close>: the lowered addresses of
  the entries that have a truthy \<^verbatim>\<open>email_address\<close>.
\<close>

fun collect_emails :: "(string \<Rightarrow> string) \<Rightarrow> json list \<Rightarrow> data_error + string list" where
  "collect_emails lower [] = Inr []"
| "collect_emails lower (e # es) =
     (case get_or e ''email_address'' JNull of
        Inl err \<Rightarrow> Inl err
      | Inr addr \<Rightarrow>
          if truthy addr then
            (case addr of
               JStr a \<Rightarrow> (case collect_emails lower es of
                            Inl err \<Rightarrow> Inl err
                          | Inr emails \<Rightarrow> Inr (lower a # emails))
             | _ \<Rightarrow> Inl AttributeError)
          else collect_emails lower es)"

text \<open>The summary \<^verbatim>\<open>process_people\<close> files under every address of a record.\<close>

record person_summary =
  ps_id :: json
  ps_name :: json
  ps_emails :: "string list"
  ps_created_at :: json

text \<open>
  The first part of the loop body of \<^verbatim>\<open>process_people\<close>: the identifier, the name,
  the addresses and the creation time of one record.
\<close>

definition person_summary_of :: "(string \<Rightarrow> string) \<Rightarrow> json \<Rightarrow> data_error + person_summary" where
  "person_summary_of lower r =
     and_then (subscript r ''id'') (\<lambda>idv.
     and_then (subscript idv ''record_id'') (\<lambda>rid.
     and_then (get_or r ''values'' (JDict [])) (\<lambda>vals.
     and_then (get_or vals ''name'' (JList [])) (\<lambda>name_vals.
     and_then (if truthy name_vals
               then and_then (first_item name_vals) (\<lambda>n. get_or n ''full_name'' (JStr ''Unknown''))
               else Inr (JStr ''Unknown'')) (\<lambda>full_name.
     and_then (get_or vals ''email_addresses'' (JList [])) (\<lambda>email_vals.
     and_then (iterate email_vals) (\<lambda>es.
     and_then (collect_emails lower es) (\<lambda>emails.
     and_then (get_or r ''created_at'' JNull) (\<lambda>created.
       Inr \<lparr>ps_id = rid, ps_name = full_name, ps_emails = emails,
            ps_created_at = created\<rparr>)))))))))"

text \<open>
  \<^verbatim>\<open>email_map[e].append(v)\<close> on a \<^verbatim>\<open>defaultdict(list)\<close>: a known key gets the value
  at the end of its list, a new key is added last with a one-element list.
\<close>

fun group_append :: "(string \<times> 'a list) list \<Rightarrow> string \<Rightarrow> 'a \<Rightarrow> (string \<times> 'a list) list" where
  "group_append [] k v = [(k, [v])]"
| "group_append ((k', vs) # m) k v =
     (if k' = k then (k', vs @ [v]) # m else (k', vs) # group_append m k v)"

text \<open>The loop \<^verbatim>\<open>for e in emails\<close>.\<close>

fun file_under :: "(string \<times> 'a list) list \<Rightarrow> string list \<Rightarrow> 'a \<Rightarrow> (string \<times> 'a list) list" where
  "file_under m [] v = m"
| "file_under m (e # es) v = file_under (group_append m e v) es v"

text \<open>The loop \<^verbatim>\<open>for r in records\<close>; an exception ends it.\<close>

fun people_email_map ::
  "(string \<Rightarrow> string) \<Rightarrow> (string \<times> person_summary list) list \<Rightarrow> json list
     \<Rightarrow> data_error + (string \<times> person_summary list) list" where
  "people_email_map lower m [] = Inr m"
| "people_email_map lower m (r # rs) =
     (case person_summary_of lower r of
        Inl err \<Rightarrow> Inl err
      | Inr s \<Rightarrow> people_email_map lower (file_under m (ps_emails s) s) rs)"

text \<open>\<^verbatim>\<open>{e: recs for e, recs in email_map.items() if len(recs) > 1}\<close>.\<close>

definition duplicates_of :: "(string \<times> 'a list) list \<Rightarrow> (string \<times> 'a list) list" where
  "duplicates_of m = filter (\<lambda>(k, recs). length recs > 1) m"

definition process_people ::
  "(string \<Rightarrow> string) \<Rightarrow> json list \<Rightarrow> data_error + (string \<times> person_summary list) list" where
  "process_people lower records =
     (case people_email_map lower [] records of
        Inl err \<Rightarrow> Inl err
      | Inr email_map \<Rightarrow> Inr (duplicates_of email_map))"

text \<open>
  A people record as the query endpoint returns it, with one name and the given
  addresses.
\<close>

definition person_json :: "string \<Rightarrow> string \<Rightarrow> string list \<Rightarrow> string \<Rightarrow> json" where
  "person_json rid full_name addrs created =
     JDict [(''id'', JDict [(''record_id'', JStr rid)]),
            (''values'', JDict [(''name'', JList [JDict [(''full_name'', JStr full_name)]]),
                               (''email_addresses'',
                                  JList (map (\<lambda>a. JDict [(''email_address'', JStr a)]) addrs))]),
            (''created_at'', JStr created)]"

text \<open>
  What \<^verbatim>\<open>str.lower\<close> does on ASCII text: the letters A to Z become a to z and every
  other character is kept. It stands in for \<open>lower\<close> in the examples, whose addresses are
  ASCII.
\<close>

definition ascii_char_lower :: "char \<Rightarrow> char" where
  "ascii_char_lower ch =
     (case map_of (zip ''ABCDEFGHIJKLMNOPQRSTUVWXYZ'' ''abcdefghijklmnopqrstuvwxyz'') ch of
        None \<Rightarrow> ch | Some l \<Rightarrow> l)"

definition ascii_lower :: "string \<Rightarrow> string" where
  "ascii_lower s = map ascii_char_lower s"

text \<open>
  The summaries filed under a key: every record's summary, once for each occurrence of
  the key among its lowered addresses, in input order.
\<close>

definition filed_under :: "string \<Rightarrow> person_summary list \<Rightarrow> person_summary list" where
  "filed_under k ss = concat (map (\<lambda>s. replicate (count_list (ps_emails s) k) s) ss)"

section \<open>flatten\_record (crm\_migration/migrate.py)\<close>

text \<open>
  Python's \<^verbatim>\<open>str.strip\<close> removes from both ends every character that Unicode counts
  as white space. Like \<^verbatim>\<open>str.lower\<close> it is a builtin of the language and is taken as
  the parameter \<open>strip\<close> of the functions that call it.
\<close>

text \<open>\<^verbatim>\<open>s.split(sep)\<close> for a separator of one character.\<close>

fun split_on :: "char \<Rightarrow> string \<Rightarrow> string list" where
  "split_on sep [] = [[]]"
| "split_on sep (ch # cs) =
     (if ch = sep then [] # split_on sep cs
      else (case split_on sep cs of
              [] \<Rightarrow> [[ch]]
            | w # ws \<Rightarrow> (ch # w) # ws))"

text \<open>
  The cleaning of a truthy \<^verbatim>\<open>x_url\<close> string. The \<^verbatim>\<open>try\<close> around the two splits
  never fires on a string.
\<close>

definition clean_x_url :: "(string \<Rightarrow> string) \<Rightarrow> string \<Rightarrow> string" where
  "clean_x_url strip x_url =
     (let cleaned = strip x_url;
          cleaned = (if str_contains cleaned ''twitter.com/'' \<or> str_contains cleaned ''x.com/''
                     then hd (split_on (CHR ''?'') (last (split_on (CHR ''/'') (rstrip_slash cleaned))))
                     else cleaned);
          cleaned = (if CHR ''.'' \<in> set cleaned then hd (split_on (CHR ''.'') cleaned) else cleaned)
      in cleaned)"

text \<open>
  The last block of \<^verbatim>\<open>flatten_record\<close>: a falsy \<^verbatim>\<open>x_url\<close> is stored as it is, a
  string is cleaned, and \<^verbatim>\<open>.strip()\<close> on any other truthy value raises.
\<close>

definition flatten_x_url :: "(string \<Rightarrow> string) \<Rightarrow> json \<Rightarrow> data_error + json" where
  "flatten_x_url strip x_url =
     (if truthy x_url
      then (case x_url of JStr s \<Rightarrow> Inr (JStr (clean_x_url strip s)) | _ \<Rightarrow> Inl AttributeError)
      else Inr x_url)"

text \<open>
  \<^verbatim>\<open>record.get(key, {})\<close> followed by \<^verbatim>\<open>isinstance(..., dict)\<close>: the dictionary under
  the key, the empty one when the key is absent, nothing when the value is no dictionary.
\<close>

definition get_dict :: "dict \<Rightarrow> string \<Rightarrow> dict option" where
  "get_dict d k = (case dict_get_default d k (JDict []) of JDict sub \<Rightarrow> Some sub | _ \<Rightarrow> None)"

definition flatten_record ::
  "(json \<Rightarrow> string) \<Rightarrow> (string \<Rightarrow> string) \<Rightarrow> dict \<Rightarrow> data_error + dict" where
  "flatten_record repr strip r =
     (let flat = r;
          flat = (case get_dict r ''name'' of
                    None \<Rightarrow> flat
                  | Some nm \<Rightarrow>
                      dict_set flat ''name_full''
                        (JStr (strip (py_str repr (dict_get_default nm ''firstName'' (JStr []))
                                          @ '' '' @
                                         py_str repr (dict_get_default nm ''lastName'' (JStr []))))));
          flat = (case get_dict r ''emails'' of
                    None \<Rightarrow> flat
                  | Some emails \<Rightarrow>
                      dict_set flat ''email_primary'' (dict_get_default emails ''primaryEmail'' (JStr [])));
          flat = (case get_dict r ''linkedinLink'' of
                    None \<Rightarrow> flat
                  | Some linkedin \<Rightarrow>
                      dict_set flat ''linkedin_url'' (dict_get_default linkedin ''primaryLinkUrl'' (JStr [])))
      in case get_dict r ''xLink'' of
           None \<Rightarrow> Inr flat
         | Some x_link \<Rightarrow>
             (case flatten_x_url strip (dict_get_default x_link ''primaryLinkUrl'' (JStr [])) of
                Inl err \<Rightarrow> Inl err
              | Inr x_url \<Rightarrow> Inr (dict_set flat ''x_url'' x_url)))"

text \<open>
  The normalisation in the words of the specification: when the URL contains a social
  domain segment, the text after its last \<open>/\<close>, without what follows the first \<open>?\<close>; then the
  text before the first dot.
\<close>

definition after_last :: "char \<Rightarrow> string \<Rightarrow> string" where
  "after_last sep s = rev (takeWhile (\<lambda>ch. ch \<noteq> sep) (rev s))"

definition before_first :: "char \<Rightarrow> string \<Rightarrow> string" where
  "before_first sep s = takeWhile (\<lambda>ch. ch \<noteq> sep) s"

definition handle_by_words :: "string \<Rightarrow> string" where
  "handle_by_words u =
     before_first (CHR ''.'')
       (if str_contains u ''twitter.com/'' \<or> str_contains u ''x.com/''
        then before_first (CHR ''?'') (after_last (CHR ''/'') u)
        else u)"

text \<open>
  What \<^verbatim>\<open>str.strip\<close> does on ASCII text: the ten ASCII characters Python counts as
  white space are removed from both ends. It stands in for \<open>strip\<close> in the examples,
  whose strings are ASCII.
\<close>

definition ascii_space :: "char \<Rightarrow> bool" where
  "ascii_space ch = (ch \<in> set [CHR 0x09, CHR 0x0A, CHR 0x0B, CHR 0x0C, CHR 0x0D,
                                CHR 0x1C, CHR 0x1D, CHR 0x1E, CHR 0x1F, CHR 0x20])"

definition ascii_strip :: "string \<Rightarrow> string" where
  "ascii_strip s = rev (dropWhile ascii_space (rev (dropWhile ascii_space s)))"

definition jack_person :: dict where
  "jack_person = [(''xLink'', JDict [(''primaryLinkUrl'', JStr ''http://twitter.com/jack/'')])]"

definition example_person :: dict where
  "example_person = [(''id'', JStr ''7''),
                     (''xLink'', JDict [(''primaryLinkUrl'', JStr ''http://twitter.com/Example.com'')])]"

section \<open>extract\_records (crm\_migration/migrate.py)\<close>

text \<open>What ends \<^verbatim>\<open>extract_records\<close> with an exception: the client's, or one raised on
  data of the wrong shape.\<close>

datatype failure = RequestFailure py_exc | DataFailure data_error

text \<open>
  The parameters of a page request: \<^verbatim>\<open>{"limit": BATCH_SIZE}\<close>, with the cursor when it
  is truthy.
\<close>

definition page_kwargs :: "config \<Rightarrow> json \<Rightarrow> kwargs" where
  "page_kwargs cfg cursor =
     no_kwargs\<lparr>kw_params :=
       Some ((''limit'', JInt (BATCH_SIZE cfg)) #
             (if truthy cursor then [(''cursor'', cursor)] else []))\<rparr>"

text \<open>\<^verbatim>\<open>[flatten_record(r) for r in batch]\<close>: an item that is no dictionary raises.\<close>

fun flatten_all ::
  "(json \<Rightarrow> string) \<Rightarrow> (string \<Rightarrow> string) \<Rightarrow> json list \<Rightarrow> data_error + dict list" where
  "flatten_all repr strip [] = Inr []"
| "flatten_all repr strip (item # items) =
     (case item of
        JDict r \<Rightarrow>
          (case flatten_record repr strip r of
             Inl err \<Rightarrow> Inl err
           | Inr flat \<Rightarrow>
               (case flatten_all repr strip items of
                  Inl err \<Rightarrow> Inl err
                | Inr flats \<Rightarrow> Inr (flat # flats)))
      | _ \<Rightarrow> Inl AttributeError)"

text \<open>
  What one pass of the \<^verbatim>\<open>while True\<close> loop makes of the value \<^verbatim>\<open>client.get\<close>
  returned: a \<^verbatim>\<open>break\<close>, an exception, or the flattened batch with the next cursor.
\<close>

datatype page = Stop | Raise data_error | Batch "dict list" json

definition read_batch ::
  "(json \<Rightarrow> string) \<Rightarrow> (string \<Rightarrow> string) \<Rightarrow> string \<Rightarrow> dict \<Rightarrow> json \<Rightarrow> page" where
  "read_batch repr strip object_name response data =
     (let batch = (case data of
                     JList xs \<Rightarrow> JList xs
                   | JDict dd \<Rightarrow> dict_get_default dd object_name (JList [])
                   | _ \<Rightarrow> JList [])
      in if \<not> truthy batch then Stop
         else (case iterate batch of
                 Inl err \<Rightarrow> Raise err
               | Inr items \<Rightarrow>
                   (case flatten_all repr strip items of
                      Inl err \<Rightarrow> Raise err
                    | Inr flat_batch \<Rightarrow>
                        (case dict_get_default response ''meta'' (JDict []) of
                           JDict meta \<Rightarrow> Batch flat_batch (dict_get meta ''next_cursor'')
                         | _ \<Rightarrow> Raise AttributeError))))"

definition read_page ::
  "(json \<Rightarrow> string) \<Rightarrow> (string \<Rightarrow> string) \<Rightarrow> string \<Rightarrow> json option \<Rightarrow> page" where
  "read_page repr strip object_name response =
     (case response of
        None \<Rightarrow> Stop
      | Some j \<Rightarrow>
          if \<not> truthy j then Stop
          else (case j of
                  JDict d \<Rightarrow>
                    (case map_of d ''data'' of
                       None \<Rightarrow> Stop
                     | Some data \<Rightarrow> read_batch repr strip object_name d data)
                | JList xs \<Rightarrow> if JStr ''data'' \<in> set xs then Raise AttributeError else Stop
                | JStr s \<Rightarrow> if str_contains s ''data'' then Raise AttributeError else Stop
                | _ \<Rightarrow> Raise TypeError))"

text \<open>
  The \<^verbatim>\<open>while True\<close> loop. It has no bound of its own: the result is \<open>None\<close> when the
  source never stops handing out cursors. The call of \<^verbatim>\<open>client.get\<close> stands outside
  any \<^verbatim>\<open>try\<close>, so what it raises leaves the function.
\<close>

partial_function (option) extract_loop ::
  "config \<Rightarrow> session \<Rightarrow> (json \<Rightarrow> string) \<Rightarrow> (string \<Rightarrow> string) \<Rightarrow> apiclient \<Rightarrow> string
     \<Rightarrow> json \<Rightarrow> dict list \<Rightarrow> effect list \<Rightarrow> ((failure + dict list) \<times> effect list) option" where
  "extract_loop cfg sess repr strip c object_name cursor records tr =
     (case client_get cfg sess c (''/rest/'' @ object_name) (page_kwargs cfg cursor) tr of
        (Inl e, tr') \<Rightarrow> Some (Inl (RequestFailure e), tr')
      | (Inr response, tr') \<Rightarrow>
          (case read_page repr strip object_name response of
             Stop \<Rightarrow> Some (Inr records, tr')
           | Raise err \<Rightarrow> Some (Inl (DataFailure err), tr')
           | Batch flat_batch next_cursor \<Rightarrow>
               if \<not> truthy next_cursor then Some (Inr (records @ flat_batch), tr')
               else extract_loop cfg sess repr strip c object_name next_cursor (records @ flat_batch)
                      tr'))"

definition extract_records ::
  "config \<Rightarrow> session \<Rightarrow> (json \<Rightarrow> string) \<Rightarrow> (string \<Rightarrow> string) \<Rightarrow> apiclient \<Rightarrow> string
     \<Rightarrow> effect list \<Rightarrow> ((failure + dict list) \<times> effect list) option" where
  "extract_records cfg sess repr strip c object_name tr =
     extract_loop cfg sess repr strip c object_name JNull [] tr"

text \<open>
  A source that answers the first call with one record and a cursor, and every later call
  with status 500.
\<close>

definition first_page :: response where
  "first_page =
     \<lparr>status_code = 200, resp_text = ''<page 1>'',
      json_body = Some (JDict [(''data'', JList [JDict [(''id'', JStr ''1'')]]),
                               (''meta'', JDict [(''next_cursor'', JStr ''abc'')])])\<rparr>"

definition server_error :: response where
  "server_error = \<lparr>status_code = 500, resp_text = ''Internal Server Error'', json_body = None\<rparr>"

definition page_then_down :: session where
  "page_then_down t r = (if sent_of t = [] then Responds first_page else Responds server_error)"

definition twenty_crm :: apiclient where
  "twenty_crm = new_client ''https://twenty.example.com/'' ''Twenty CRM''"

section \<open>Merging duplicate companies (merge\_duplicates.py)\<close>


















section \<open>Properties of APIClient.request\<close>

lemma upt_3: "[0..<3] = [0, 1, 2]"
  by code_simp

lemma upt_2: "[0..<2] = [0, 1]"
  by code_simp

lemma request_attempts_never_None:
  "as \<noteq> [] \<Longrightarrow> int (last as) = mr - 1 \<Longrightarrow>
   fst (request_attempts sess mr rq as tr) \<noteq> Inr None"
proof (induction as arbitrary: tr)
  case Nil
  then show ?case by simp
next
  case (Cons a as)
  show ?case
  proof (cases as)
    case Nil
    with Cons.prems show ?thesis
      by (simp split: sum.splits)
  next
    case (Cons b bs)
    with Cons.prems Cons.IH show ?thesis
      by (simp split: sum.splits)
  qed
qed

lemma last_upt_nat: "1 \<le> mr \<Longrightarrow> [0..<nat mr] \<noteq> [] \<and> int (last [0..<nat mr]) = mr - 1"
  by (cases "nat mr") (auto)

lemma request_attempts_Some:
  "fst (request_attempts sess mr rq as tr) = Inr (Some resp) \<Longrightarrow>
   \<exists>tr'. sess tr' rq = Responds resp \<and> \<not> (400 \<le> status_code resp \<and> status_code resp < 600)"
proof (induction as arbitrary: tr)
  case Nil
  then show ?case by simp
next
  case (Cons a as)
  then show ?case
    by (auto simp: attempt_once_def raise_for_status_def split: sum.splits if_splits outcome.splits)
qed

lemma backoff_general:
  assumes "\<forall>t. transient_failure sess t rq"
  shows "int k < mr \<Longrightarrow> n = nat mr \<Longrightarrow>
    request_attempts sess mr rq [k..<n] tr =
      (Inl (case attempt_once sess (tr @ concat (map (\<lambda>a. [Sent rq, Slept (2 ^ a)]) [k..<n - 1])) rq of Inl e \<Rightarrow> e),
       tr @ concat (map (\<lambda>a. if Suc a = n then [Sent rq] else [Sent rq, Slept (2 ^ a)]) [k..<n]))"
proof (induction "n - k" arbitrary: k tr)
  case 0
  then show ?case by simp
next
  case (Suc d)
  have kn: "k < n" using Suc by linarith
  have tf: "transient_failure sess tr rq" using assms by blast
  then obtain e where e: "attempt_once sess tr rq = Inl e" "caught_by_retry e"
    by (auto simp: transient_failure_def split: sum.splits)
  show ?case
  proof (cases "Suc k = n")
    case True
    then have "[k..<n] = [k]" by auto
    moreover have "int k = mr - 1" using True Suc.prems by linarith
    moreover have "[k..<n - 1] = []" using True by simp
    ultimately show ?thesis using e True by simp
  next
    case False
    then have lt: "Suc k < n" using kn by simp
    have u: "[k..<n] = k # [Suc k..<n]" using kn by (simp add: upt_conv_Cons)
    have u2: "[k..<n - 1] = k # [Suc k..<n - 1]" using lt by (simp add: upt_conv_Cons)
    have ne: "int k \<noteq> mr - 1" using False Suc.prems by linarith
    have d: "d = n - Suc k" using Suc.hyps by simp
    have lt': "int (Suc k) < mr" using lt Suc.prems by linarith
    have IH: "request_attempts sess mr rq [Suc k..<n] (tr @ [Sent rq, Slept (2 ^ k)]) = 
      (Inl (case attempt_once sess ((tr @ [Sent rq, Slept (2 ^ k)]) @ concat (map (\<lambda>a. [Sent rq, Slept (2 ^ a)]) [Suc k..<n - 1])) rq of Inl e \<Rightarrow> e),
       (tr @ [Sent rq, Slept (2 ^ k)]) @ concat (map (\<lambda>a. if Suc a = n then [Sent rq] else [Sent rq, Slept (2 ^ a)]) [Suc k..<n]))"
      using Suc.hyps(1)[OF d lt' Suc.prems(2)] .
    show ?thesis
      unfolding u u2 using e ne False IH by simp
  qed
qed

lemma sent_of_append: "sent_of (xs @ ys) = sent_of xs @ sent_of ys"
  by (simp add: sent_of_def)

lemma sleeps_of_append: "sleeps_of (xs @ ys) = sleeps_of xs @ sleeps_of ys"
  by (simp add: sleeps_of_def)

lemma backoff_trace_Suc:
  "backoff_trace rq (Suc n) = concat (map (\<lambda>a. [Sent rq, Slept (2 ^ a)]) [0..<n]) @ [Sent rq]"
proof -
  have "map (\<lambda>a. if a = n then [Sent rq] else [Sent rq, Slept (2 ^ a)]) [0..<n]
      = map (\<lambda>a. [Sent rq, Slept (2 ^ a)]) [0..<n]"
    by (rule map_cong) auto
  then have "concat (map (\<lambda>a. if a = n then [Sent rq] else [Sent rq, Slept (2 ^ a)]) [0..<n])
      = concat (map (\<lambda>a. [Sent rq, Slept (2 ^ a)]) [0..<n])"
    by (rule arg_cong)
  then show ?thesis unfolding backoff_trace_def by simp
qed

lemma sent_of_pairs: "sent_of (concat (map (\<lambda>a. [Sent rq, Slept (2 ^ a)]) as)) = replicate (length as) rq"
  by (induction as) (simp_all add: sent_of_def)

lemma sleeps_of_pairs: "sleeps_of (concat (map (\<lambda>a. [Sent rq, Slept (2 ^ a)]) as)) = map (\<lambda>a. 2 ^ a) as"
  by (induction as) (simp_all add: sleeps_of_def)

lemma sent_of_backoff_trace: "sent_of (backoff_trace rq n) = replicate n rq"
proof (cases n)
  case 0
  then show ?thesis by (simp add: backoff_trace_def sent_of_def)
next
  case (Suc k)
  have "sent_of (backoff_trace rq (Suc k)) = replicate k rq @ [rq]"
    by (simp add: backoff_trace_Suc sent_of_append sent_of_pairs) (simp add: sent_of_def)
  then show ?thesis using Suc by (simp add: replicate_append_same)
qed

lemma sleeps_of_backoff_trace: "sleeps_of (backoff_trace rq n) = map (\<lambda>a. 2 ^ a) [0..<n - 1]"
proof (cases n)
  case 0
  then show ?thesis by (simp add: backoff_trace_def sleeps_of_def)
next
  case (Suc k)
  have "sleeps_of (backoff_trace rq (Suc k)) = map (\<lambda>a. 2 ^ a) [0..<k]"
    by (simp add: backoff_trace_Suc sleeps_of_append sleeps_of_pairs) (simp add: sleeps_of_def)
  then show ?thesis using Suc by simp
qed

text \<open>
  Claim C4. When every attempt of a call fails transiently and \<open>MAX_RETRIES\<close> is at least
  1, \<open>APIClient.request\<close> makes exactly \<open>MAX_RETRIES\<close> attempts of the same call, sleeps
  \<open>2 ^ attempt\<close> seconds after each attempt but the last (1, 2, 4, ... seconds), and then
  raises the failure of the last attempt to its caller.
\<close>

theorem request_sustained_failure:
  assumes retries: "1 \<le> MAX_RETRIES cfg"
    and fails: "\<forall>t. transient_failure sess t (build_request cfg c m endpoint kw)"
  shows "\<exists>e. request cfg sess c m endpoint kw tr =
            (Inl e, tr @ backoff_trace (build_request cfg c m endpoint kw) (nat (MAX_RETRIES cfg)))
          \<and> caught_by_retry e
          \<and> attempt_once sess
               (butlast (tr @ backoff_trace (build_request cfg c m endpoint kw) (nat (MAX_RETRIES cfg))))
               (build_request cfg c m endpoint kw) = Inl e
          \<and> sent_of (backoff_trace (build_request cfg c m endpoint kw) (nat (MAX_RETRIES cfg)))
               = replicate (nat (MAX_RETRIES cfg)) (build_request cfg c m endpoint kw)
          \<and> sleeps_of (backoff_trace (build_request cfg c m endpoint kw) (nat (MAX_RETRIES cfg)))
               = map (\<lambda>a. 2 ^ a) [0..<nat (MAX_RETRIES cfg) - 1]"
proof -
  define rq where "rq = build_request cfg c m endpoint kw"
  define n where "n = nat (MAX_RETRIES cfg)"
  have "0 < n" using retries by (simp add: n_def)
  then obtain k where k: "n = Suc k" by (cases n) auto
  define pre where "pre = tr @ concat (map (\<lambda>a. [Sent rq, Slept (2 ^ a)]) [0..<k])"
  have tf: "transient_failure sess pre rq" using fails rq_def by blast
  then obtain e where e: "attempt_once sess pre rq = Inl e" "caught_by_retry e"
    by (auto simp: transient_failure_def split: sum.splits)
  have bl: "butlast (tr @ backoff_trace rq n) = pre"
    by (simp add: k backoff_trace_Suc pre_def butlast_append)
  have "int 0 < MAX_RETRIES cfg" using retries by simp
  from backoff_general[OF fails[folded rq_def] this n_def, of tr]
  have "request_attempts sess (MAX_RETRIES cfg) rq [0..<n] tr = (Inl e, tr @ backoff_trace rq n)"
    using e by (simp add: backoff_trace_def k pre_def)
  then have "request cfg sess c m endpoint kw tr = (Inl e, tr @ backoff_trace rq n)"
    by (simp add: request_def rq_def n_def)
  with e bl show ?thesis
    unfolding rq_def[symmetric] n_def[symmetric]
    by (simp add: sent_of_backoff_trace sleeps_of_backoff_trace)
qed

theorem request_sustained_failure_witness:
  "request cfg3 down_session attio ''GET'' ''/objects'' no_kwargs [] =
     (Inl (RequestException ''connection refused'' None),
      [Sent (build_request cfg3 attio ''GET'' ''/objects'' no_kwargs), Slept 1,
       Sent (build_request cfg3 attio ''GET'' ''/objects'' no_kwargs), Slept 2,
       Sent (build_request cfg3 attio ''GET'' ''/objects'' no_kwargs)])
   \<and> sleeps_of (backoff_trace (build_request cfg3 attio ''GET'' ''/objects'' no_kwargs) 3) = [1, 2]"
proof -
  have h1: "1 \<le> MAX_RETRIES cfg3" by (simp add: cfg3_def)
  have h2: "\<forall>t. transient_failure down_session t (build_request cfg3 attio ''GET'' ''/objects'' no_kwargs)"
    by (simp add: transient_failure_def attempt_once_def down_session_def)
  have n: "nat (MAX_RETRIES cfg3) = 3" by (simp add: cfg3_def)
  from request_sustained_failure[OF h1 h2, of "[]"]
  show ?thesis
    unfolding n
    by (auto simp: backoff_trace_def upt_3 upt_2 attempt_once_def down_session_def)
qed

text \<open>
  Claim C10. When \<open>MAX_RETRIES\<close> is at least 1, \<open>APIClient.request\<close> never returns
  \<open>None\<close>: it raises, or it returns a response that the session gave to this call and that
  passed \<^verbatim>\<open>raise_for_status\<close>. The \<^verbatim>\<open>return None\<close> after the loop is reached only
  when the loop makes no attempt at all (\<open>request_without_retries\<close> below).
\<close>

theorem request_never_returns_None:
  assumes "1 \<le> MAX_RETRIES cfg"
  shows "fst (request cfg sess c m endpoint kw tr) \<noteq> Inr None
       \<and> (\<forall>resp. fst (request cfg sess c m endpoint kw tr) = Inr (Some resp) \<longrightarrow>
            (\<exists>t. sess t (build_request cfg c m endpoint kw) = Responds resp
                 \<and> \<not> (400 \<le> status_code resp \<and> status_code resp < 600)))"
  using assms request_attempts_never_None[of "[0..<nat (MAX_RETRIES cfg)]" "MAX_RETRIES cfg"]
    last_upt_nat[of "MAX_RETRIES cfg"] request_attempts_Some
  unfolding request_def by blast

theorem request_never_returns_None_witness:
  "fst (request cfg3 flaky_session attio ''GET'' ''/objects'' no_kwargs []) = Inr (Some ok_response)
   \<and> fst (request cfg3 flaky_session attio ''GET'' ''/objects'' no_kwargs []) \<noteq> Inr None"
proof -
  have h1: "1 \<le> MAX_RETRIES cfg3" by (simp add: cfg3_def)
  have "fst (request cfg3 flaky_session attio ''GET'' ''/objects'' no_kwargs []) = Inr (Some ok_response)"
    by (simp add: request_def cfg3_def upt_3 attempt_once_def flaky_session_def sent_of_def
        raise_for_status_def ok_response_def)
  with request_never_returns_None[OF h1, of flaky_session attio "''GET''" "''/objects''" no_kwargs "[]"]
  show ?thesis by simp
qed

lemma request_without_retries:
  "MAX_RETRIES cfg \<le> 0 \<Longrightarrow> request cfg sess c m endpoint kw tr = (Inr None, tr)"
  by (simp add: request_def)

section \<open>Properties of the payload builder\<close>

lemma map_of_dict_set: "map_of (dict_set d k v) k' = (if k' = k then Some v else map_of d k')"
  by (induction d) auto

lemma map_of_build_values:
  "map_of (build_values repr mapping record vals) t =
     (if mapped_sources mapping record t = [] then map_of vals t
      else Some (encode_field repr t (dict_get record (last (mapped_sources mapping record t)))))"
proof (induction mapping arbitrary: vals)
  case Nil
  then show ?case by (simp add: mapped_sources_def)
next
  case (Cons p mapping)
  obtain s t' where p: "p = (s, t')" by (cases p)
  show ?case
    unfolding p using Cons.IH
    by (simp add: mapped_sources_def map_of_dict_set Let_def)
qed

lemma payload_field_build_payload:
  "payload_field (build_payload repr mapping record) t =
     (if mapped_sources mapping record t = [] then None
      else Some (encode_field repr t (dict_get record (last (mapped_sources mapping record t)))))"
  by (simp add: payload_field_def build_payload_def dict_get_def map_of_build_values)

text \<open>
  Claim C5, as amended. When the mapping sends a source field with a non-empty value to
  \<open>primary_location\<close>, the payload holds under that key a list of one location object
  with all ten sub-keys of the fixed shape, in this order: \<open>line_1\<close> to \<open>line_4\<close> empty
  strings, \<open>locality\<close> the city value, \<open>region\<close> and \<open>postcode\<close> empty strings,
  \<open>country_code\<close>, \<open>latitude\<close> and \<open>longitude\<close> null. The city is the value of the last
  such source field of the mapping, which is the given one when it is the only one.
\<close>

theorem location_has_all_ten_keys:
  assumes "(source_field, ''primary_location'') \<in> set mapping"
    and "dict_get record source_field \<noteq> JNull"
    and "dict_get record source_field \<noteq> JStr []"
  shows "\<exists>city. payload_field (build_payload repr mapping record) ''primary_location'' =
           Some (JList [JDict [(''line_1'', JStr ''''), (''line_2'', JStr ''''),
                               (''line_3'', JStr ''''), (''line_4'', JStr ''''),
                               (''locality'', city),
                               (''region'', JStr ''''), (''postcode'', JStr ''''),
                               (''country_code'', JNull), (''latitude'', JNull),
                               (''longitude'', JNull)]])
         \<and> city = dict_get record (last (mapped_sources mapping record ''primary_location''))
         \<and> last (mapped_sources mapping record ''primary_location'')
              \<in> set (mapped_sources mapping record ''primary_location'')
         \<and> (mapped_sources mapping record ''primary_location'' = [source_field]
              \<or> 1 < length (mapped_sources mapping record ''primary_location''))"
proof -
  let ?ms = "mapped_sources mapping record ''primary_location''"
  have mem: "source_field \<in> set ?ms"
    using assms by (force simp: mapped_sources_def)
  then have ne: "?ms \<noteq> []" by auto
  have "?ms = [source_field] \<or> 1 < length ?ms"
  proof (cases ?ms)
    case Nil
    with ne show ?thesis by simp
  next
    case (Cons a as)
    with mem show ?thesis by (cases as) auto
  qed
  with ne show ?thesis
    by (simp add: payload_field_build_payload encode_field_def location_value_def)
qed

theorem location_has_all_ten_keys_witness:
  "payload_field (build_payload no_repr [(''city'', ''primary_location'')] [(''city'', JStr ''Paris'')])
       ''primary_location'' =
     Some (JList [JDict [(''line_1'', JStr ''''), (''line_2'', JStr ''''),
                         (''line_3'', JStr ''''), (''line_4'', JStr ''''),
                         (''locality'', JStr ''Paris''),
                         (''region'', JStr ''''), (''postcode'', JStr ''''),
                         (''country_code'', JNull), (''latitude'', JNull),
                         (''longitude'', JNull)]])"
proof -
  have ms: "mapped_sources [(''city'', ''primary_location'')] [(''city'', JStr ''Paris'')]
              ''primary_location'' = [''city'']"
    by (simp add: mapped_sources_def dict_get_def)
  have g: "dict_get [(''city'', JStr ''Paris'')] ''city'' = JStr ''Paris''"
    by (simp add: dict_get_def)
  from location_has_all_ten_keys[of "''city''" "[(''city'', ''primary_location'')]"
      "[(''city'', JStr ''Paris'')]" no_repr]
  show ?thesis unfolding ms by (simp add: g)
qed

text \<open>
  The location object of the record \<open>{city: "Paris"}\<close> does not have nine sub-keys: it
  has ten.
\<close>

theorem location_nine_keys_counterexample:
  "\<not> (\<exists>obj. payload_field (build_payload no_repr [(''city'', ''primary_location'')]
                   [(''city'', JStr ''Paris'')]) ''primary_location'' = Some (JList [JDict obj])
            \<and> length obj = 9)"
  by (simp add: payload_field_def build_payload_def dict_get_def encode_field_def
      location_value_def)

section \<open>Properties of execute\_migration\<close>

lemma request_attempts_trace:
  "\<exists>k ext. k \<le> length as \<and> (as \<noteq> [] \<longrightarrow> 1 \<le> k) \<and>
     snd (request_attempts sess mr rq as tr) = tr @ ext \<and> sent_of ext = replicate k rq"
proof (induction as arbitrary: tr)
  case Nil
  then show ?case by (simp add: sent_of_def)
next
  case (Cons a as)
  have one: "sent_of [Sent rq] = replicate 1 rq" by (simp add: sent_of_def)
  show ?case
  proof (cases "\<exists>e. attempt_once sess tr rq = Inl e \<and> caught_by_retry e \<and> int a \<noteq> mr - 1")
    case True
    then obtain e where e: "attempt_once sess tr rq = Inl e" "caught_by_retry e" "int a \<noteq> mr - 1"
      by blast
    obtain k ext where k: "k \<le> length as"
      "snd (request_attempts sess mr rq as (tr @ [Sent rq, Slept (2 ^ a)])) = (tr @ [Sent rq, Slept (2 ^ a)]) @ ext"
      "sent_of ext = replicate k rq"
      using Cons.IH by blast
    have "sent_of ([Sent rq, Slept (2 ^ a)] @ ext) = replicate (Suc k) rq"
      using k(3) by (simp add: sent_of_def)
    moreover have "snd (request_attempts sess mr rq (a # as) tr) = tr @ ([Sent rq, Slept (2 ^ a)] @ ext)"
      using e k(2) by simp
    ultimately show ?thesis using k(1)
      by (intro exI[of _ "Suc k"] exI[of _ "[Sent rq, Slept (2 ^ a)] @ ext"]) simp
  next
    case False
    then have "snd (request_attempts sess mr rq (a # as) tr) = tr @ [Sent rq]"
      by (auto split: sum.splits)
    with one show ?thesis
      by (intro exI[of _ 1] exI[of _ "[Sent rq]"]) simp
  qed
qed

lemma request_trace:
  "\<exists>k ext. k \<le> nat (MAX_RETRIES cfg) \<and> (1 \<le> MAX_RETRIES cfg \<longrightarrow> 1 \<le> k) \<and>
     snd (request cfg sess c m endpoint kw tr) = tr @ ext \<and>
     sent_of ext = replicate k (build_request cfg c m endpoint kw)"
  using request_attempts_trace[of "[0..<nat (MAX_RETRIES cfg)]" sess "MAX_RETRIES cfg"
      "build_request cfg c m endpoint kw" tr]
  unfolding request_def by auto

lemma snd_write_record:
  "snd (write_record cfg sess c target_object payload tr) =
     (if target_object = ''people'' \<and> has_email payload
      then snd (request cfg sess c ''PUT'' (records_endpoint target_object)
                  \<lparr>kw_json = Some (JDict [(''data'', JDict payload)]),
                   kw_params = Some [(''matching_attribute'', JStr ''email_addresses'')],
                   kw_timeout = None\<rparr> tr)
      else snd (request cfg sess c ''POST'' (records_endpoint target_object)
                  \<lparr>kw_json = Some (JDict [(''data'', JDict payload)]),
                   kw_params = None, kw_timeout = None\<rparr> tr))"
  by (auto simp: write_record_def client_post_def no_kwargs_def split: prod.splits sum.splits option.splits)

lemma snd_migrate_one_live:
  "snd (migrate_one cfg sess repr c mapping target_object False record (lg, tr)) =
     snd (write_record cfg sess c target_object (build_payload repr mapping record) tr)"
  by (simp add: migrate_one_def Let_def split: prod.splits sum.splits)

lemma has_email_payload_field:
  "has_email payload \<longleftrightarrow> (\<exists>v. payload_field payload ''email_addresses'' = Some v \<and> truthy v)"
  by (auto simp: has_email_def payload_field_def split: json.splits option.splits)

lemma records_url:
  "url (build_request cfg c m (records_endpoint target_object) kw) =
     base_url c @ ''/objects/'' @ target_object @ ''/records''"
  by (simp add: build_request_def records_endpoint_def lstrip_slash_def)

text \<open>
  Claim C6. In live mode with \<open>MAX_RETRIES\<close> at least 1, the calls sent for one record are
  between one and \<open>MAX_RETRIES\<close> copies of a single write. When the target is
  \<open>people\<close> and the built payload holds a non-empty value under \<open>email_addresses\<close>, the
  write is a \<open>PUT\<close> on the records endpoint with the parameter
  \<open>matching_attribute = email_addresses\<close>; in every other case it is a \<open>POST\<close> on the
  records endpoint of the target, with no parameters. Both carry the payload under
  \<open>data\<close>.
\<close>

theorem upsert_or_create:
  assumes "1 \<le> MAX_RETRIES cfg"
  shows "\<exists>k ext. 1 \<le> k \<and> k \<le> nat (MAX_RETRIES cfg) \<and>
     snd (migrate_one cfg sess repr c mapping target_object False record (lg, tr)) = tr @ ext \<and>
     sent_of ext = replicate k
       (if target_object = ''people'' \<and>
           (\<exists>v. payload_field (build_payload repr mapping record) ''email_addresses'' = Some v
                \<and> truthy v)
        then \<lparr>http_method = ''PUT'',
              url = base_url c @ ''/objects/people/records'',
              json_data = Some (JDict [(''data'', JDict (build_payload repr mapping record))]),
              params = Some [(''matching_attribute'', JStr ''email_addresses'')],
              timeout = REQUEST_TIMEOUT cfg\<rparr>
        else \<lparr>http_method = ''POST'',
              url = base_url c @ ''/objects/'' @ target_object @ ''/records'',
              json_data = Some (JDict [(''data'', JDict (build_payload repr mapping record))]),
              params = None,
              timeout = REQUEST_TIMEOUT cfg\<rparr>)"
proof -
  let ?payload = "build_payload repr mapping record"
  let ?put = "\<lparr>kw_json = Some (JDict [(''data'', JDict ?payload)]),
               kw_params = Some [(''matching_attribute'', JStr ''email_addresses'')],
               kw_timeout = None\<rparr>"
  let ?post = "\<lparr>kw_json = Some (JDict [(''data'', JDict ?payload)]),
                kw_params = None, kw_timeout = None\<rparr>"
  show ?thesis
  proof (cases "target_object = ''people'' \<and> has_email ?payload")
    case True
    have rq: "build_request cfg c ''PUT'' (records_endpoint ''people'') ?put =
        \<lparr>http_method = ''PUT'', url = base_url c @ ''/objects/people/records'',
         json_data = Some (JDict [(''data'', JDict ?payload)]),
         params = Some [(''matching_attribute'', JStr ''email_addresses'')],
         timeout = REQUEST_TIMEOUT cfg\<rparr>"
      by (simp add: build_request_def records_endpoint_def lstrip_slash_def)
    from request_trace[of cfg sess c "''PUT''" "records_endpoint ''people''" ?put tr] assms
    obtain k ext where "1 \<le> k" "k \<le> nat (MAX_RETRIES cfg)"
      "snd (request cfg sess c ''PUT'' (records_endpoint ''people'') ?put tr) = tr @ ext"
      "sent_of ext = replicate k (build_request cfg c ''PUT'' (records_endpoint ''people'') ?put)"
      by auto
    with True show ?thesis
      unfolding snd_migrate_one_live snd_write_record rq has_email_payload_field[symmetric]
      by auto
  next
    case False
    have rq: "build_request cfg c ''POST'' (records_endpoint target_object) ?post =
        \<lparr>http_method = ''POST'', url = base_url c @ ''/objects/'' @ target_object @ ''/records'',
         json_data = Some (JDict [(''data'', JDict ?payload)]),
         params = None,
         timeout = REQUEST_TIMEOUT cfg\<rparr>"
      by (simp add: build_request_def records_endpoint_def lstrip_slash_def)
    from request_trace[of cfg sess c "''POST''" "records_endpoint target_object" ?post tr] assms
    obtain k ext where "1 \<le> k" "k \<le> nat (MAX_RETRIES cfg)"
      "snd (request cfg sess c ''POST'' (records_endpoint target_object) ?post tr) = tr @ ext"
      "sent_of ext = replicate k (build_request cfg c ''POST'' (records_endpoint target_object) ?post)"
      by auto
    with False show ?thesis
      unfolding snd_migrate_one_live snd_write_record rq has_email_payload_field[symmetric]
      by auto
  qed
qed

theorem upsert_or_create_witness:
  "snd (migrate_one cfg3 created_session no_repr attio [(''email_primary'', ''email_addresses'')]
          ''people'' False [(''id'', JStr ''1''), (''email_primary'', JStr ''a@b.com'')]
          (new_logger, [])) =
     [Sent \<lparr>http_method = ''PUT'',
            url = ''https://api.attio.com/v2/objects/people/records'',
            json_data = Some (JDict [(''data'', JDict [(''values'',
              JDict [(''email_addresses'', JList [JDict [(''email_address'', JStr ''a@b.com'')]])])])]),
            params = Some [(''matching_attribute'', JStr ''email_addresses'')],
            timeout = 30\<rparr>]
   \<and> snd (migrate_one cfg3 created_session no_repr attio [(''email_primary'', ''email_addresses'')]
          ''companies'' False [(''id'', JStr ''1''), (''email_primary'', JStr ''a@b.com'')]
          (new_logger, [])) =
     [Sent \<lparr>http_method = ''POST'',
            url = ''https://api.attio.com/v2/objects/companies/records'',
            json_data = Some (JDict [(''data'', JDict [(''values'',
              JDict [(''email_addresses'', JList [JDict [(''email_address'', JStr ''a@b.com'')]])])])]),
            params = None,
            timeout = 30\<rparr>]"
proof -
  have h1: "1 \<le> MAX_RETRIES cfg3" by (simp add: cfg3_def)
  have p: "build_payload no_repr [(''email_primary'', ''email_addresses'')]
             [(''id'', JStr ''1''), (''email_primary'', JStr ''a@b.com'')] =
           [(''values'', JDict [(''email_addresses'', JList [JDict [(''email_address'', JStr ''a@b.com'')]])])]"
    by (simp add: build_payload_def dict_get_def encode_field_def)
  have b: "base_url attio = ''https://api.attio.com/v2''"
    by (simp add: attio_def new_client_def rstrip_slash_def)
  from upsert_or_create[OF h1, of created_session no_repr attio
      "[(''email_primary'', ''email_addresses'')]" "''people''"
      "[(''id'', JStr ''1''), (''email_primary'', JStr ''a@b.com'')]" new_logger "[]"]
  have "snd (migrate_one cfg3 created_session no_repr attio [(''email_primary'', ''email_addresses'')]
          ''people'' False [(''id'', JStr ''1''), (''email_primary'', JStr ''a@b.com'')]
          (new_logger, [])) \<noteq> []"
    by (auto simp: sent_of_def)
  then show ?thesis
    unfolding migrate_one_def p
    by (simp add: Let_def write_record_def has_email_def dict_get_def request_def cfg3_def upt_3
        attempt_once_def created_session_def created_response_def raise_for_status_def
        build_request_def records_endpoint_def lstrip_slash_def b client_post_def no_kwargs_def
        json_or_none_def response_ok_def)
qed

lemma migrate_one_dry_run:
  "migrate_one cfg sess repr c mapping target_object True record (lg, tr) =
     (log_success lg (dict_get_default record ''id'' (JStr ''unknown'')) (JStr ''dry-run-id'')
        (build_payload repr mapping record),
      tr @ [Slept (1 / 10)])"
  by (simp add: migrate_one_def Let_def)

text \<open>
  Claim C8. With the dry-run flag set, the executor hands no call to the session, whatever
  the records are: the trace grows by one sleep of 0.1 seconds per record only. The logger
  gets exactly one success entry per input record, in order, with the identifier
  \<open>dry-run-id\<close> and the payload built for the record, and no error entry.
\<close>

theorem dry_run_sends_nothing:
  "sent_of (snd (execute_migration cfg sess repr c records mapping target_object True (lg, tr)))
     = sent_of tr
   \<and> snd (execute_migration cfg sess repr c records mapping target_object True (lg, tr))
     = tr @ replicate (length records) (Slept (1 / 10))
   \<and> successful_records
       (fst (execute_migration cfg sess repr c records mapping target_object True (lg, tr)))
     = successful_records lg @
       map (\<lambda>record. \<lparr>s_twenty_id = dict_get_default record ''id'' (JStr ''unknown''),
                       s_attio_id = JStr ''dry-run-id'',
                       s_record_data = build_payload repr mapping record\<rparr>) records
   \<and> success_count
       (fst (execute_migration cfg sess repr c records mapping target_object True (lg, tr)))
     = success_count lg + int (length records)
   \<and> failed_records
       (fst (execute_migration cfg sess repr c records mapping target_object True (lg, tr)))
     = failed_records lg
   \<and> error_count
       (fst (execute_migration cfg sess repr c records mapping target_object True (lg, tr)))
     = error_count lg"
proof -
  let ?f = "\<lambda>l r. log_success l (dict_get_default r ''id'' (JStr ''unknown''))
              (JStr ''dry-run-id'') (build_payload repr mapping r)"
  have run: "execute_migration cfg sess repr c rs mapping target_object True (l, t) =
      (foldl ?f l rs, t @ replicate (length rs) (Slept (1 / 10)))" for rs l t
    by (induction rs arbitrary: l t) (simp_all add: migrate_one_dry_run replicate_app_Cons_same)
  have sr: "successful_records (foldl ?f l rs) = successful_records l @
      map (\<lambda>r. \<lparr>s_twenty_id = dict_get_default r ''id'' (JStr ''unknown''),
                   s_attio_id = JStr ''dry-run-id'',
                   s_record_data = build_payload repr mapping r\<rparr>) rs" for rs l
    by (induction rs arbitrary: l) (simp_all add: log_success_def)
  have sc: "success_count (foldl ?f l rs) = success_count l + int (length rs)" for rs l
    by (induction rs arbitrary: l) (simp_all add: log_success_def)
  have fr: "failed_records (foldl ?f l rs) = failed_records l" for rs l
    by (induction rs arbitrary: l) (simp_all add: log_success_def)
  have ec: "error_count (foldl ?f l rs) = error_count l" for rs l
    by (induction rs arbitrary: l) (simp_all add: log_success_def)
  have so: "sent_of (replicate n (Slept d)) = []" for n d
    by (induction n) (simp_all add: sent_of_def)
  show ?thesis
    unfolding run by (simp add: sr sc fr ec so sent_of_append)
qed

text \<open>
  Every record adds exactly one entry to the logger, a success or an error, in both modes
  and whatever the service does; the batch runs through all records.
\<close>

lemma log_response_one_entry:
  "length (successful_records (log_response lg twenty payload res))
     + length (failed_records (log_response lg twenty payload res))
   = Suc (length (successful_records lg) + length (failed_records lg))"
  by (auto simp: log_response_def log_parsed_def log_success_def log_error_def
      split: write_result.splits option.splits json.splits)

lemma migrate_one_one_entry:
  "length (successful_records (fst (migrate_one cfg sess repr c mapping target_object dry_run record st)))
     + length (failed_records (fst (migrate_one cfg sess repr c mapping target_object dry_run record st)))
   = Suc (length (successful_records (fst st)) + length (failed_records (fst st)))"
  by (auto simp: migrate_one_def Let_def log_response_one_entry log_success_def log_error_def
      split: prod.splits sum.splits)

lemma execute_migration_one_entry_per_record:
  "length (successful_records (fst (execute_migration cfg sess repr c records mapping target_object dry_run st)))
     + length (failed_records (fst (execute_migration cfg sess repr c records mapping target_object dry_run st)))
   = length (successful_records (fst st)) + length (failed_records (fst st)) + length records"
proof (induction records arbitrary: st)
  case Nil
  then show ?case by simp
next
  case (Cons r rs)
  show ?case
    unfolding execute_migration.simps Cons.IH migrate_one_one_entry by simp
qed

lemma alice_payload:
  "build_payload no_repr [(''name'', ''name'')] alice =
     [(''values'', JDict [(''name'', JList [JDict [(''full_name'', JStr ''Alice''),
        (''first_name'', JStr ''Alice''), (''last_name'', JStr [])]])])]"
  by (simp add: build_payload_def alice_def dict_get_def encode_field_def name_value_def
      split_first_space_def py_str_def Let_def)

text \<open>
  Claim C3, at the input of \<^verbatim>\<open>test_execute_migration_live\<close>. The record has no email,
  so the write is a \<open>POST\<close> through \<^verbatim>\<open>attio_client.post\<close>, which returns parsed JSON.
  The service answers 200 with a body that holds the record identifier \<open>attio_1\<close>; the
  executor calls \<^verbatim>\<open>.json()\<close> on the parsed value, the bare \<^verbatim>\<open>except\<close> catches the
  \<^verbatim>\<open>AttributeError\<close>, and the success entry carries \<open>upserted-no-content\<close> instead of
  the identifier.
\<close>

theorem create_path_loses_record_id:
  "successful_records (fst (execute_migration cfg3 created_session no_repr attio [alice]
      [(''name'', ''name'')] ''people'' False (new_logger, []))) =
     [\<lparr>s_twenty_id = JStr ''1'', s_attio_id = JStr ''upserted-no-content'',
       s_record_data = build_payload no_repr [(''name'', ''name'')] alice\<rparr>]"
  unfolding execute_migration.simps migrate_one_def alice_payload
  by (simp add: Let_def write_record_def has_email_def dict_get_def request_def cfg3_def upt_3
        attempt_once_def created_session_def created_response_def raise_for_status_def
        client_post_def no_kwargs_def json_or_none_def response_ok_def log_response_def
        log_success_def new_logger_def dict_get_default_def alice_def)

text \<open>
  The same answer on the \<open>PUT\<close> path, where \<^verbatim>\<open>request\<close> returns the response object:
  the entry carries the identifier.
\<close>

lemma upsert_path_keeps_record_id:
  "successful_records (fst (execute_migration cfg3 created_session no_repr attio [alice_with_email]
      [(''email_primary'', ''email_addresses'')] ''people'' False (new_logger, []))) =
     [\<lparr>s_twenty_id = JStr ''1'', s_attio_id = JStr ''attio_1'',
       s_record_data = build_payload no_repr [(''email_primary'', ''email_addresses'')] alice_with_email\<rparr>]"
proof -
  have p: "build_payload no_repr [(''email_primary'', ''email_addresses'')] alice_with_email =
      [(''values'', JDict [(''email_addresses'', JList [JDict [(''email_address'', JStr ''alice@example.com'')]])])]"
    by (simp add: build_payload_def alice_with_email_def dict_get_def encode_field_def)
  show ?thesis
    unfolding execute_migration.simps migrate_one_def p
    by (simp add: Let_def write_record_def has_email_def dict_get_def request_def cfg3_def upt_3
        attempt_once_def created_session_def created_response_def raise_for_status_def
        response_ok_def log_response_def log_parsed_def
        log_success_def new_logger_def dict_get_default_def alice_with_email_def)
qed

section \<open>Properties of process\_people\<close>

lemma person_summary_of_person_json:
  "a \<noteq> [] \<Longrightarrow> person_summary_of lower (person_json rid nm [a] created) =
     Inr \<lparr>ps_id = JStr rid, ps_name = JStr nm, ps_emails = [lower a],
          ps_created_at = JStr created\<rparr>"
  by (simp add: person_summary_of_def person_json_def subscript_def get_or_def and_then_def
      dict_get_default_def first_item_def iterate_def)

text \<open>
  Claim C9. Take three people records, each with one non-empty address: two whose
  addresses are the same once lowered (by Python's \<^verbatim>\<open>str.lower\<close>, the parameter
  \<open>lower\<close>), say \<open>a@b.com\<close>, and a third whose lowered address differs. Wherever the third stands in the input, \<open>process_people\<close> returns exactly one
  group: it is keyed by the lowered shared address and holds the two records that share
  it, in input order. The third record is in no group, its group of size 1 being
  discarded.
\<close>

theorem two_people_sharing_an_email:
  assumes "a1 \<noteq> []" and "a2 \<noteq> []" and "a3 \<noteq> []"
    and "lower a1 = k" and "lower a2 = k" and "lower a3 \<noteq> k"
  shows "process_people lower [person_json i1 n1 [a1] c1, person_json i2 n2 [a2] c2,
                         person_json i3 n3 [a3] c3] =
           Inr [(k, [\<lparr>ps_id = JStr i1, ps_name = JStr n1, ps_emails = [k], ps_created_at = JStr c1\<rparr>,
                     \<lparr>ps_id = JStr i2, ps_name = JStr n2, ps_emails = [k], ps_created_at = JStr c2\<rparr>])]
       \<and> process_people lower [person_json i1 n1 [a1] c1, person_json i3 n3 [a3] c3,
                         person_json i2 n2 [a2] c2] =
           Inr [(k, [\<lparr>ps_id = JStr i1, ps_name = JStr n1, ps_emails = [k], ps_created_at = JStr c1\<rparr>,
                     \<lparr>ps_id = JStr i2, ps_name = JStr n2, ps_emails = [k], ps_created_at = JStr c2\<rparr>])]
       \<and> process_people lower [person_json i3 n3 [a3] c3, person_json i1 n1 [a1] c1,
                         person_json i2 n2 [a2] c2] =
           Inr [(k, [\<lparr>ps_id = JStr i1, ps_name = JStr n1, ps_emails = [k], ps_created_at = JStr c1\<rparr>,
                     \<lparr>ps_id = JStr i2, ps_name = JStr n2, ps_emails = [k], ps_created_at = JStr c2\<rparr>])]"
  using assms
  by (auto simp: process_people_def person_summary_of_person_json duplicates_of_def)

theorem two_people_sharing_an_email_witness:
  "process_people ascii_lower [person_json ''p1'' ''Ann'' [''a@b.com''] ''2024-01-01'',
                   person_json ''p2'' ''Ann B'' [''A@B.com''] ''2024-02-01'',
                   person_json ''p3'' ''Cy'' [''c@d.com''] ''2024-03-01''] =
     Inr [(''a@b.com'',
           [\<lparr>ps_id = JStr ''p1'', ps_name = JStr ''Ann'', ps_emails = [''a@b.com''],
             ps_created_at = JStr ''2024-01-01''\<rparr>,
            \<lparr>ps_id = JStr ''p2'', ps_name = JStr ''Ann B'', ps_emails = [''a@b.com''],
             ps_created_at = JStr ''2024-02-01''\<rparr>])]"
proof -
  have l1: "ascii_lower ''a@b.com'' = ''a@b.com''" by (simp add: ascii_lower_def ascii_char_lower_def)
  have l2: "ascii_lower ''A@B.com'' = ''a@b.com''" by (simp add: ascii_lower_def ascii_char_lower_def)
  have l3: "ascii_lower ''c@d.com'' \<noteq> ''a@b.com''" by (simp add: ascii_lower_def ascii_char_lower_def)
  from two_people_sharing_an_email[where lower = ascii_lower and k = "''a@b.com''"
        and ?a1.0 = "''a@b.com''" and ?a2.0 = "''A@B.com''" and ?a3.0 = "''c@d.com''"
        and ?i1.0 = "''p1''" and ?n1.0 = "''Ann''" and ?c1.0 = "''2024-01-01''"
        and ?i2.0 = "''p2''" and ?n2.0 = "''Ann B''" and ?c2.0 = "''2024-02-01''"
        and ?i3.0 = "''p3''" and ?n3.0 = "''Cy''" and ?c3.0 = "''2024-03-01''",
      OF _ _ _ l1 l2 l3]
  show ?thesis by simp
qed

lemma map_of_group_append:
  "map_of (group_append m k v) k' =
     (if k' = k then Some ((case map_of m k of None \<Rightarrow> [] | Some vs \<Rightarrow> vs) @ [v])
      else map_of m k')"
  by (induction m) auto

lemma keys_group_append_old: "k \<in> fst ` set m \<Longrightarrow> map fst (group_append m k v) = map fst m"
  by (induction m) force+

lemma keys_group_append_new: "k \<notin> fst ` set m \<Longrightarrow> map fst (group_append m k v) = map fst m @ [k]"
  by (induction m) auto

lemma keys_group_append:
  "map fst (group_append m k v) = (if k \<in> fst ` set m then map fst m else map fst m @ [k])"
  by (simp add: keys_group_append_old keys_group_append_new)

lemma distinct_group_append:
  "distinct (map fst m) \<Longrightarrow> distinct (map fst (group_append m k v))"
  by (simp add: keys_group_append)

lemma distinct_file_under:
  "distinct (map fst m) \<Longrightarrow> distinct (map fst (file_under m es v))"
  by (induction es arbitrary: m) (simp_all add: distinct_group_append)

lemma map_of_file_under:
  "map_of (file_under m es v) k =
     (if k \<in> set es
      then Some ((case map_of m k of None \<Rightarrow> [] | Some vs \<Rightarrow> vs) @ replicate (count_list es k) v)
      else map_of m k)"
proof (induction es arbitrary: m)
  case Nil
  then show ?case by simp
next
  case (Cons e es)
  show ?case
    by (simp add: Cons.IH map_of_group_append replicate_app_Cons_same)
qed

lemma filed_under_Nil: "filed_under k [] = []"
  by (simp add: filed_under_def)

lemma filed_under_Cons:
  "filed_under k (s # ss) = replicate (count_list (ps_emails s) k) s @ filed_under k ss"
  by (simp add: filed_under_def)

lemma count_list_0_iff: "count_list xs x = 0 \<longleftrightarrow> x \<notin> set xs"
  by (induction xs) auto

lemma map_of_file_under_alt:
  "map_of (file_under m es v) k =
     (if replicate (count_list es k) v = [] then map_of m k
      else Some ((case map_of m k of None \<Rightarrow> [] | Some vs \<Rightarrow> vs) @ replicate (count_list es k) v))"
  by (simp add: map_of_file_under count_list_0_iff)

lemma people_email_map_lookup:
  "people_email_map lower m rs = Inr m' \<Longrightarrow>
     \<exists>ss. map (person_summary_of lower) rs = map Inr ss \<and>
          map_of m' k =
            (if filed_under k ss = [] then map_of m k
             else Some ((case map_of m k of None \<Rightarrow> [] | Some vs \<Rightarrow> vs) @ filed_under k ss))"
proof (induction rs arbitrary: m)
  case Nil
  then show ?case by (simp add: filed_under_Nil)
next
  case (Cons r rs)
  from Cons.prems obtain s where s: "person_summary_of lower r = Inr s"
    and rest: "people_email_map lower (file_under m (ps_emails s) s) rs = Inr m'"
    by (auto split: sum.splits)
  from Cons.IH[OF rest] obtain ss where ss: "map (person_summary_of lower) rs = map Inr ss"
    and look: "map_of m' k =
      (if filed_under k ss = [] then map_of (file_under m (ps_emails s) s) k
       else Some ((case map_of (file_under m (ps_emails s) s) k of None \<Rightarrow> [] | Some vs \<Rightarrow> vs)
                  @ filed_under k ss))"
    by blast
  have "map (person_summary_of lower) (r # rs) = map Inr (s # ss)"
    using s ss by simp
  moreover have "map_of m' k =
      (if filed_under k (s # ss) = [] then map_of m k
       else Some ((case map_of m k of None \<Rightarrow> [] | Some vs \<Rightarrow> vs) @ filed_under k (s # ss)))"
    unfolding look map_of_file_under_alt filed_under_Cons by simp
  ultimately show ?case by blast
qed

lemma people_email_map_distinct:
  "people_email_map lower m rs = Inr m' \<Longrightarrow> distinct (map fst m) \<Longrightarrow> distinct (map fst m')"
proof (induction rs arbitrary: m)
  case Nil
  then show ?case by simp
next
  case (Cons r rs)
  then show ?case
    by (auto split: sum.splits intro: distinct_file_under)
qed

lemma map_of_filter_distinct:
  "distinct (map fst m) \<Longrightarrow>
     map_of (filter P m) k =
       (case map_of m k of None \<Rightarrow> None | Some v \<Rightarrow> if P (k, v) then Some v else None)"
proof (induction m)
  case Nil
  then show ?case by simp
next
  case (Cons p m)
  obtain k' v' where p: "p = (k', v')" by (cases p)
  have notin: "k' \<notin> fst ` set m" using Cons.prems p by simp
  then have none: "map_of m k' = None" by (simp add: map_of_eq_None_iff)
  have none': "map_of (filter P m) k' = None"
    using notin by (auto simp: map_of_eq_None_iff)
  show ?case
    using Cons p none none' by (auto split: option.splits)
qed

text \<open>
  In general: when no record is malformed, the result has one entry per key, and a key
  has an entry exactly when more than one summary is filed under it; the entry lists
  these summaries in input order.
\<close>

lemma process_people_groups:
  assumes "process_people lower rs = Inr dups"
  shows "\<exists>ss. map (person_summary_of lower) rs = map Inr ss \<and> distinct (map fst dups) \<and>
           (\<forall>k. map_of dups k =
              (if 1 < length (filed_under k ss) then Some (filed_under k ss) else None))"
proof -
  from assms obtain m where m: "people_email_map lower [] rs = Inr m" and d: "dups = duplicates_of m"
    by (auto simp: process_people_def split: sum.splits)
  have dist: "distinct (map fst m)"
    using people_email_map_distinct[OF m] by simp
  obtain ss where ss: "map (person_summary_of lower) rs = map Inr ss"
    using people_email_map_lookup[OF m] by blast
  have look: "map_of m k = (if filed_under k ss = [] then None else Some (filed_under k ss))" for k
  proof -
    from people_email_map_lookup[OF m, of k] obtain ss' where
      a: "map (person_summary_of lower) rs = map Inr ss'" and
      b: "map_of m k = (if filed_under k ss' = [] then map_of [] k
             else Some ((case map_of [] k of None \<Rightarrow> [] | Some vs \<Rightarrow> vs) @ filed_under k ss'))"
      by blast
    from a ss have "map Inr ss' = (map Inr ss :: (data_error + person_summary) list)" by simp
    then have "ss' = ss" by (simp add: inj_map_eq_map[OF inj_Inr])
    with b show ?thesis by simp
  qed
  have "map_of dups k = (if 1 < length (filed_under k ss) then Some (filed_under k ss) else None)" for k
    unfolding d duplicates_of_def map_of_filter_distinct[OF dist] look
    by (cases "filed_under k ss") auto
  moreover have "distinct (map fst dups)"
    unfolding d duplicates_of_def using dist by (simp add: distinct_map_filter)
  ultimately show ?thesis using ss by blast
qed

section \<open>Properties of flatten\_record\<close>

lemma split_on_nonempty: "split_on sep s \<noteq> []"
  by (induction s) (auto split: list.splits)

lemma split_on_Cons:
  "split_on sep (ch # cs) =
     (if ch = sep then [] # split_on sep cs
      else (ch # hd (split_on sep cs)) # tl (split_on sep cs))"
  using split_on_nonempty[of sep cs] by (cases "split_on sep cs") auto

lemma hd_split_on: "hd (split_on sep s) = before_first sep s"
proof (induction s)
  case Nil
  then show ?case by (simp add: before_first_def)
next
  case (Cons ch cs)
  then show ?case by (simp add: split_on_Cons before_first_def del: split_on.simps)
qed

lemma split_on_no_sep: "sep \<notin> set s \<Longrightarrow> split_on sep s = [s]"
proof (induction s)
  case Nil
  then show ?case by simp
next
  case (Cons ch cs)
  then show ?case by (auto simp: split_on_Cons simp del: split_on.simps)
qed

lemma length_split_on: "length (split_on sep s) = Suc (length (filter (\<lambda>ch. ch = sep) s))"
proof (induction s)
  case Nil
  then show ?case by simp
next
  case (Cons ch cs)
  have "length (tl (split_on sep cs)) = length (filter (\<lambda>ch. ch = sep) cs)"
    using Cons.IH by simp
  then show ?case
    using Cons.IH by (simp add: split_on_Cons del: split_on.simps)
qed

lemma last_split_on_after_sep:
  "last (split_on sep (a @ sep # b)) = last (split_on sep b)"
proof (induction a)
  case Nil
  then show ?case by (simp add: split_on_nonempty)
next
  case (Cons ch cs)
  let ?r = "split_on sep (cs @ sep # b)"
  have "length ?r \<ge> 2" by (simp add: length_split_on)
  then have tl_ne: "tl ?r \<noteq> []" by (cases ?r) auto
  have "last ((ch # hd ?r) # tl ?r) = last (tl ?r)" using tl_ne by simp
  also have "\<dots> = last ?r" using tl_ne by (cases ?r) auto
  finally have l: "last ((ch # hd ?r) # tl ?r) = last ?r" .
  show ?case
  proof (cases "ch = sep")
    case True
    then show ?thesis
      using Cons.IH split_on_nonempty[of sep "cs @ sep # b"]
      by (simp add: split_on_Cons del: split_on.simps)
  next
    case False
    then show ?thesis
      using Cons.IH l by (simp add: split_on_Cons del: split_on.simps)
  qed
qed

lemma last_split_on: "last (split_on sep s) = after_last sep s"
proof (cases "sep \<in> set s")
  case False
  then have tw: "takeWhile (\<lambda>ch. ch \<noteq> sep) (rev s) = rev s"
    by (intro takeWhile_eq_all_conv[THEN iffD2]) auto
  have "after_last sep s = s" unfolding after_last_def tw by simp
  with False show ?thesis by (simp add: split_on_no_sep)
next
  case True
  then obtain a b where s: "s = a @ sep # b" and nb: "sep \<notin> set b"
    by (meson split_list_last)
  have "takeWhile (\<lambda>ch. ch \<noteq> sep) (rev b @ sep # rev a) = rev b"
    using nb by (subst takeWhile_append2) auto
  then have "after_last sep s = b" unfolding s after_last_def by simp
  moreover have "last (split_on sep s) = b"
    unfolding s last_split_on_after_sep using nb by (simp add: split_on_no_sep)
  ultimately show ?thesis by simp
qed

lemma before_first_no_sep: "sep \<notin> set s \<Longrightarrow> before_first sep s = s"
  by (induction s) (auto simp: before_first_def)

lemma clean_x_url_by_words:
  "clean_x_url strip x_url =
     (let u = strip x_url in
      before_first (CHR ''.'')
        (if str_contains u ''twitter.com/'' \<or> str_contains u ''x.com/''
         then before_first (CHR ''?'') (after_last (CHR ''/'') (rstrip_slash u))
         else u))"
  by (simp add: clean_x_url_def Let_def hd_split_on last_split_on before_first_no_sep)

lemma flatten_record_x_url_gen:
  assumes x: "map_of r ''xLink'' = Some (JDict x_link)"
    and u: "map_of x_link ''primaryLinkUrl'' = Some (JStr link)"
    and ne: "link \<noteq> []"
  shows "\<exists>flat. flatten_record repr strip r = Inr flat
           \<and> map_of flat ''x_url'' = Some (JStr (clean_x_url strip link))
           \<and> (\<forall>k. k \<notin> {''name_full'', ''email_primary'', ''linkedin_url'', ''x_url''}
                  \<longrightarrow> map_of flat k = map_of r k)"
proof -
  have g: "get_dict r ''xLink'' = Some x_link"
    using x by (simp add: get_dict_def dict_get_default_def)
  have f: "flatten_x_url strip (dict_get_default x_link ''primaryLinkUrl'' (JStr [])) = Inr (JStr (clean_x_url strip link))"
    using u ne by (simp add: dict_get_default_def flatten_x_url_def)
  show ?thesis
    by (auto simp: flatten_record_def Let_def g f map_of_dict_set split: option.splits)
qed

text \<open>
  Claim C7, as amended. \<open>flatten_record\<close> is a function of the record (and of Python's
  printing and stripping of text): it returns a new dictionary that agrees with the record
  on every key but the four derived ones. For a record whose \<open>xLink\<close> holds a non-empty
  URL string, the handle under \<open>x_url\<close> is computed from the URL as \<^verbatim>\<open>str.strip\<close>
  leaves it, without its surrounding white space:
  when that contains \<open>twitter.com/\<close> or \<open>x.com/\<close>, trailing slashes are dropped, the text
  after the last remaining slash is taken and cut before the first \<open>?\<close>; the result, or
  the URL itself in the other case, is cut before its first dot. For a URL with no
  surrounding white space and no trailing slash this is the rule in the specification's
  words.
\<close>

theorem flatten_record_x_url:
  assumes "map_of r ''xLink'' = Some (JDict x_link)"
    and "map_of x_link ''primaryLinkUrl'' = Some (JStr link)"
    and "link \<noteq> []"
  shows "\<exists>flat. flatten_record repr strip r = Inr flat
           \<and> map_of flat ''x_url'' =
               Some (JStr (before_first (CHR ''.'')
                 (if str_contains (strip link) ''twitter.com/'' \<or> str_contains (strip link) ''x.com/''
                  then before_first (CHR ''?'') (after_last (CHR ''/'') (rstrip_slash (strip link)))
                  else strip link)))
           \<and> (strip link = link \<and> rstrip_slash link = link
                \<longrightarrow> map_of flat ''x_url'' = Some (JStr (handle_by_words link)))
           \<and> (\<forall>k. k \<notin> {''name_full'', ''email_primary'', ''linkedin_url'', ''x_url''}
                  \<longrightarrow> map_of flat k = map_of r k)"
proof -
  from flatten_record_x_url_gen[OF assms, where repr = repr and strip = strip]
  obtain flat where f1: "flatten_record repr strip r = Inr flat"
    and f2: "map_of flat ''x_url'' = Some (JStr (clean_x_url strip link))"
    and f3: "\<forall>k. k \<notin> {''name_full'', ''email_primary'', ''linkedin_url'', ''x_url''}
                  \<longrightarrow> map_of flat k = map_of r k"
    by blast
  have c: "clean_x_url strip link = before_first (CHR ''.'')
                 (if str_contains (strip link) ''twitter.com/'' \<or> str_contains (strip link) ''x.com/''
                  then before_first (CHR ''?'') (after_last (CHR ''/'') (rstrip_slash (strip link)))
                  else strip link)"
    by (simp only: clean_x_url_by_words Let_def)
  have w: "clean_x_url strip link = handle_by_words link"
    if a: "strip link = link \<and> rstrip_slash link = link"
  proof -
    from a have a1: "strip link = link" and a2: "rstrip_slash link = link" by blast+
    show ?thesis
      unfolding c handle_by_words_def a1 a2 ..
  qed
  have g2: "strip link = link \<and> rstrip_slash link = link
      \<longrightarrow> map_of flat ''x_url'' = Some (JStr (handle_by_words link))"
    using w f2 by (simp only:) blast
  from f1 f2[unfolded c] g2 f3 show ?thesis by blast
qed

lemma clean_example: "clean_x_url ascii_strip ''http://twitter.com/Example.com'' = ''Example''"
  by (simp add: clean_x_url_def ascii_strip_def ascii_space_def rstrip_slash_def Let_def)

theorem flatten_record_x_url_witness:
  "\<exists>flat. flatten_record no_repr ascii_strip example_person = Inr flat
         \<and> map_of flat ''x_url'' = Some (JStr ''Example'')
         \<and> map_of flat ''id'' = Some (JStr ''7'')"
proof -
  have s: "ascii_strip ''http://twitter.com/Example.com'' = ''http://twitter.com/Example.com''"
    by (simp add: ascii_strip_def ascii_space_def)
  have r: "rstrip_slash ''http://twitter.com/Example.com'' = ''http://twitter.com/Example.com''"
    by (simp add: rstrip_slash_def)
  have h: "handle_by_words ''http://twitter.com/Example.com'' = ''Example''"
    by (simp add: handle_by_words_def before_first_def after_last_def)
  have p1: "map_of example_person ''xLink'' =
      Some (JDict [(''primaryLinkUrl'', JStr ''http://twitter.com/Example.com'')])"
    by (simp add: example_person_def)
  have p2: "map_of [(''primaryLinkUrl'', JStr ''http://twitter.com/Example.com'')] ''primaryLinkUrl''
      = Some (JStr ''http://twitter.com/Example.com'')"
    by simp
  have p3: "''http://twitter.com/Example.com'' \<noteq> []" by simp
  from flatten_record_x_url[OF p1 p2 p3, where repr = no_repr and strip = ascii_strip]
  obtain flat where f: "flatten_record no_repr ascii_strip example_person = Inr flat
      \<and> map_of flat ''x_url'' =
               Some (JStr (before_first (CHR ''.'')
                 (if str_contains (ascii_strip ''http://twitter.com/Example.com'') ''twitter.com/''
                    \<or> str_contains (ascii_strip ''http://twitter.com/Example.com'') ''x.com/''
                  then before_first (CHR ''?'') (after_last (CHR ''/'')
                         (rstrip_slash (ascii_strip ''http://twitter.com/Example.com'')))
                  else ascii_strip ''http://twitter.com/Example.com'')))
      \<and> (ascii_strip ''http://twitter.com/Example.com'' = ''http://twitter.com/Example.com''
          \<and> rstrip_slash ''http://twitter.com/Example.com'' = ''http://twitter.com/Example.com''
        \<longrightarrow> map_of flat ''x_url'' = Some (JStr (handle_by_words ''http://twitter.com/Example.com'')))
      \<and> (\<forall>k. k \<notin> {''name_full'', ''email_primary'', ''linkedin_url'', ''x_url''}
                  \<longrightarrow> map_of flat k = map_of example_person k)" ..
  note f1 = f[THEN conjunct1]
  note f3 = f[THEN conjunct2, THEN conjunct2, THEN conjunct1]
  note f4 = f[THEN conjunct2, THEN conjunct2, THEN conjunct2]
  have x: "map_of flat ''x_url'' = Some (JStr ''Example'')"
    using mp[OF f3 conjI[OF s r]] unfolding h .
  have n: "''id'' \<notin> {''name_full'', ''email_primary'', ''linkedin_url'', ''x_url''}" by simp
  have "map_of flat ''id'' = map_of example_person ''id''"
    using mp[OF spec[OF f4] n] .
  then have i: "map_of flat ''id'' = Some (JStr ''7'')" by (simp add: example_person_def)
  show ?thesis
    by (rule exI[of _ flat]) (simp only: f1 x i simp_thms)
qed

text \<open>
  The rule in the specification's words fails on a profile URL that ends in a slash: the
  text after the last slash of \<open>http://twitter.com/jack/\<close> is empty, and
  \<open>flatten_record\<close> yields the handle \<open>jack\<close>.
\<close>

theorem flatten_trailing_slash_counterexample:
  "flatten_record no_repr ascii_strip jack_person =
     Inr [(''xLink'', JDict [(''primaryLinkUrl'', JStr ''http://twitter.com/jack/'')]),
          (''name_full'', JStr []), (''email_primary'', JStr []), (''linkedin_url'', JStr []),
          (''x_url'', JStr ''jack'')]
   \<and> handle_by_words ''http://twitter.com/jack/'' = []"
  by (simp add: flatten_record_def jack_person_def get_dict_def dict_get_default_def Let_def
      py_str_def ascii_strip_def ascii_space_def flatten_x_url_def clean_x_url_def rstrip_slash_def
      handle_by_words_def before_first_def after_last_def)

section \<open>Properties of extract\_records\<close>

lemma first_call:
  "client_get cfg3 page_then_down c ''/rest/people'' (page_kwargs cfg3 JNull) [] =
     (Inr (json_body first_page),
      [Sent (build_request cfg3 c ''GET'' ''/rest/people'' (page_kwargs cfg3 JNull))])"
  by (simp add: client_get_def request_def cfg3_def upt_3 attempt_once_def page_then_down_def
      sent_of_def raise_for_status_def first_page_def json_or_none_def response_ok_def)

lemma later_call:
  "sent_of t \<noteq> [] \<Longrightarrow>
   client_get cfg3 page_then_down c ep kw t =
     (Inl (HTTPError server_error),
      t @ backoff_trace (build_request cfg3 c ''GET'' ep kw) 3)"
proof -
  assume ne: "sent_of t \<noteq> []"
  have f: "\<forall>t'. transient_failure page_then_down (t @ t') (build_request cfg3 c ''GET'' ep kw)"
    using ne by (simp add: transient_failure_def attempt_once_def page_then_down_def
        sent_of_append raise_for_status_def server_error_def)
  have a: "attempt_once page_then_down (t @ t') rq = Inl (HTTPError server_error)" for t' rq
    using ne by (simp add: attempt_once_def page_then_down_def sent_of_append
        raise_for_status_def server_error_def)
  let ?rq = "build_request cfg3 c ''GET'' ep kw"
  have "request_attempts page_then_down 3 ?rq [0, 1, 2] t =
      (Inl (HTTPError server_error), t @ [Sent ?rq, Slept 1, Sent ?rq, Slept 2, Sent ?rq])"
    using a[of "[]"] a[of "[Sent ?rq, Slept 1]"] a[of "[Sent ?rq, Slept 1, Sent ?rq, Slept 2]"]
    by simp
  then show ?thesis
    by (simp add: client_get_def request_def cfg3_def upt_3 backoff_trace_def upt_2)
qed

lemma first_page_read:
  "read_page no_repr ascii_strip ''people'' (json_body first_page) =
     Batch [[(''id'', JStr ''1''), (''name_full'', JStr []), (''email_primary'', JStr []),
             (''linkedin_url'', JStr []), (''x_url'', JStr [])]] (JStr ''abc'')"
  by (simp add: read_page_def first_page_def read_batch_def iterate_def flatten_record_def
      get_dict_def dict_get_default_def dict_get_def Let_def py_str_def ascii_strip_def ascii_space_def
      flatten_x_url_def)

text \<open>
  Claim C2, at a source whose first page is fine and whose second page fails on all
  three attempts: \<open>extract_records\<close> does not return the record of the first page. The
  \<open>HTTPError\<close> that \<open>APIClient.request\<close> raises after its last attempt leaves
  \<open>extract_records\<close> as an exception.
\<close>

theorem extract_records_raises_after_first_page:
  "extract_records cfg3 page_then_down no_repr ascii_strip twenty_crm ''people'' [] =
     Some (Inl (RequestFailure (HTTPError server_error)),
           [Sent (build_request cfg3 twenty_crm ''GET'' ''/rest/people'' (page_kwargs cfg3 JNull))] @
           backoff_trace
             (build_request cfg3 twenty_crm ''GET'' ''/rest/people'' (page_kwargs cfg3 (JStr ''abc''))) 3)"
proof -
  let ?rq1 = "build_request cfg3 twenty_crm ''GET'' ''/rest/people'' (page_kwargs cfg3 JNull)"
  have ne: "sent_of [Sent ?rq1] \<noteq> []" by (simp add: sent_of_def)
  have ep: "''/rest/'' @ ''people'' = ''/rest/people''" by simp
  have two: "extract_loop cfg3 page_then_down no_repr ascii_strip twenty_crm ''people'' (JStr ''abc'')
        ([] @ [[(''id'', JStr ''1''), (''name_full'', JStr []), (''email_primary'', JStr []),
             (''linkedin_url'', JStr []), (''x_url'', JStr [])]]) [Sent ?rq1] =
      Some (Inl (RequestFailure (HTTPError server_error)),
            [Sent ?rq1] @ backoff_trace
              (build_request cfg3 twenty_crm ''GET'' ''/rest/people'' (page_kwargs cfg3 (JStr ''abc''))) 3)"
    by (subst extract_loop.simps) (simp add: ep later_call[OF ne] del: append.simps)
  show ?thesis
    unfolding extract_records_def
    by (subst extract_loop.simps)
      (simp add: ep first_call first_page_read two del: append.simps)
qed

section \<open>Properties of the merge\<close>









section \<open>Further checks at concrete inputs\<close>

text \<open>The grouping law \<open>process_people_groups\<close> at two records that share an address.\<close>

theorem process_people_groups_witness:
  "\<exists>ss. map (person_summary_of ascii_lower) [person_json ''p1'' ''Ann'' [''a@b.com''] ''2024-01-01'',
                                  person_json ''p2'' ''Ann B'' [''A@B.com''] ''2024-02-01''] = map Inr ss
        \<and> map_of [(''a@b.com'',
                    [\<lparr>ps_id = JStr ''p1'', ps_name = JStr ''Ann'', ps_emails = [''a@b.com''],
                      ps_created_at = JStr ''2024-01-01''\<rparr>,
                     \<lparr>ps_id = JStr ''p2'', ps_name = JStr ''Ann B'', ps_emails = [''a@b.com''],
                      ps_created_at = JStr ''2024-02-01''\<rparr>])] ''a@b.com''
            = (if 1 < length (filed_under ''a@b.com'' ss) then Some (filed_under ''a@b.com'' ss)
               else None)"
proof -
  have l1: "ascii_lower ''a@b.com'' = ''a@b.com''" by (simp add: ascii_lower_def ascii_char_lower_def)
  have l2: "ascii_lower ''A@B.com'' = ''a@b.com''" by (simp add: ascii_lower_def ascii_char_lower_def)
  have eq: "process_people ascii_lower [person_json ''p1'' ''Ann'' [''a@b.com''] ''2024-01-01'',
                            person_json ''p2'' ''Ann B'' [''A@B.com''] ''2024-02-01''] =
      Inr [(''a@b.com'',
            [\<lparr>ps_id = JStr ''p1'', ps_name = JStr ''Ann'', ps_emails = [''a@b.com''],
              ps_created_at = JStr ''2024-01-01''\<rparr>,
             \<lparr>ps_id = JStr ''p2'', ps_name = JStr ''Ann B'', ps_emails = [''a@b.com''],
              ps_created_at = JStr ''2024-02-01''\<rparr>])]"
    by (simp add: process_people_def person_summary_of_person_json duplicates_of_def l1 l2)
  from process_people_groups[OF eq]
  obtain ss where ss: "map (person_summary_of ascii_lower) [person_json ''p1'' ''Ann'' [''a@b.com''] ''2024-01-01'',
                                  person_json ''p2'' ''Ann B'' [''A@B.com''] ''2024-02-01''] = map Inr ss
     \<and> distinct (map fst [(''a@b.com'',
            [\<lparr>ps_id = JStr ''p1'', ps_name = JStr ''Ann'', ps_emails = [''a@b.com''],
              ps_created_at = JStr ''2024-01-01''\<rparr>,
             \<lparr>ps_id = JStr ''p2'', ps_name = JStr ''Ann B'', ps_emails = [''a@b.com''],
              ps_created_at = JStr ''2024-02-01''\<rparr>])])
     \<and> (\<forall>k. map_of [(''a@b.com'',
            [\<lparr>ps_id = JStr ''p1'', ps_name = JStr ''Ann'', ps_emails = [''a@b.com''],
              ps_created_at = JStr ''2024-01-01''\<rparr>,
             \<lparr>ps_id = JStr ''p2'', ps_name = JStr ''Ann B'', ps_emails = [''a@b.com''],
              ps_created_at = JStr ''2024-02-01''\<rparr>])] k =
              (if 1 < length (filed_under k ss) then Some (filed_under k ss) else None))" ..
  note a = ss[THEN conjunct1]
  note b = ss[THEN conjunct2, THEN conjunct2, THEN spec, of "''a@b.com''"]
  show ?thesis
    by (rule exI[of _ ss], rule conjI, rule a, rule b)
qed

text \<open>With \<open>MAX_RETRIES = 0\<close> no call is sent and the result is \<open>None\<close>.\<close>

theorem request_without_retries_witness:
  "request (cfg3\<lparr>MAX_RETRIES := 0\<rparr>) down_session attio ''GET'' ''/objects'' no_kwargs [] = (Inr None, [])"
proof -
  have h: "MAX_RETRIES (cfg3\<lparr>MAX_RETRIES := 0\<rparr>) \<le> 0" by simp
  show ?thesis
    using request_without_retries[OF h, of down_session attio "''GET''" "''/objects''" no_kwargs "[]"] .
qed

end
